theory Spec2Isabelle
  imports Complex_Main "HOL-Library.AList" "HOL-Library.Monad_Syntax"
begin

section \<open>Data model\<close>

text \<open>
  The TypeScript interfaces of the marketing dashboard.  A JavaScript \<open>number\<close> is
  modelled as a \<open>real\<close>: the arithmetic of the model is exact, and the non-finite
  values (\<open>NaN\<close>, \<open>Infinity\<close>) have no counterpart.  Where the source could
  produce one of them the model says so with \<open>None\<close>: the demographic rollup for a
  \<open>+=\<close> on a missing dictionary key, \<open>Math_max\<close> and \<open>Math_min\<close> for an empty
  argument list, and the checked rate computations (section Checked division) for a
  division by zero.

  Field names are the source's, with a prefix per interface, since several interfaces
  share the names \<open>impressions\<close>, \<open>clicks\<close>, \<open>ctr\<close> and so on:
  \<open>perf_\<close> for the nested \<open>performance\<close> object of a demographic slice,
  \<open>dp_\<close> for \<open>DevicePerformance\<close>, \<open>wp_\<close> for \<open>WeeklyPerformance\<close>,
  \<open>rp_\<close> for \<open>RegionalPerformance\<close>, \<open>cap_\<close> for
  \<open>CampaignAgePerformance\<close> and \<open>cdb_\<close> for \<open>CampaignDeviceBreakdown\<close>.
  A breakdown that a campaign may omit (\<open>if (!campaign.weekly_performance) return\<close>)
  is an \<open>option\<close>.
\<close>

record Performance =
  perf_impressions :: real
  perf_clicks :: real
  perf_conversions :: real
  perf_ctr :: real
  perf_conversion_rate :: real

record DemographicBreakdown =
  gender :: string
  age_group :: string
  percentage_of_audience :: real
  performance :: Performance

record DevicePerformance =
  dp_device :: string
  dp_impressions :: real
  dp_clicks :: real
  dp_conversions :: real
  dp_spend :: real
  dp_revenue :: real
  dp_ctr :: real
  dp_conversion_rate :: real
  dp_percentage_of_traffic :: real

record WeeklyPerformance =
  wp_week_start :: string
  wp_week_end :: string
  wp_impressions :: real
  wp_clicks :: real
  wp_conversions :: real
  wp_spend :: real
  wp_revenue :: real

record RegionalPerformance =
  rp_region :: string
  rp_country :: string
  rp_impressions :: real
  rp_clicks :: real
  rp_conversions :: real
  rp_spend :: real
  rp_revenue :: real
  rp_ctr :: real
  rp_conversion_rate :: real
  rp_cpc :: real
  rp_cpa :: real
  rp_roas :: real

record Campaign =
  name :: string
  spend :: real
  revenue :: real
  demographic_breakdown :: "DemographicBreakdown list option"
  device_performance :: "DevicePerformance list option"
  weekly_performance :: "WeeklyPerformance list option"
  regional_performance :: "RegionalPerformance list option"

record MarketingData =
  campaigns :: "Campaign list option"

section \<open>Regional rollup (RegionView, \<open>regionalData\<close>)\<close>

text \<open>
  The body of the \<open>else\<close> branch.  The five \<open>+=\<close> come first, so when the rates
  are recomputed \<open>existing.impressions\<close>, \<open>existing.clicks\<close>,
  \<open>existing.conversions\<close>, \<open>existing.spend\<close> and \<open>existing.revenue\<close> hold the new
  sums: they are the \<open>let\<close>-bound values.  Each rate keeps its \<open>> 0\<close> guard.
\<close>

definition region_merge :: "RegionalPerformance \<Rightarrow> RegionalPerformance \<Rightarrow> RegionalPerformance" where
  "region_merge existing region =
     (let impressions = rp_impressions existing + rp_impressions region;
          clicks = rp_clicks existing + rp_clicks region;
          conversions = rp_conversions existing + rp_conversions region;
          spend' = rp_spend existing + rp_spend region;
          revenue' = rp_revenue existing + rp_revenue region
      in existing\<lparr>rp_impressions := impressions,
                   rp_clicks := clicks,
                   rp_conversions := conversions,
                   rp_spend := spend',
                   rp_revenue := revenue',
                   rp_ctr := (if impressions > 0 then (clicks / impressions) * 100 else 0),
                   rp_conversion_rate := (if clicks > 0 then (conversions / clicks) * 100 else 0),
                   rp_cpc := (if clicks > 0 then spend' / clicks else 0),
                   rp_cpa := (if conversions > 0 then spend' / conversions else 0),
                   rp_roas := (if spend' > 0 then revenue' / spend' else 0)\<rparr>)"

text \<open>
  A JavaScript \<open>Map\<close> iterates in insertion order and \<open>set\<close> on a key already
  present keeps the key's position: an association list with \<open>AList.update\<close>.
  \<open>{ ...region }\<close> is a copy; in this value model a copy is the value itself.
\<close>

definition region_step :: "(string \<times> RegionalPerformance) list \<Rightarrow> RegionalPerformance
    \<Rightarrow> (string \<times> RegionalPerformance) list" where
  "region_step regionMap region =
     (let key = rp_region region
      in case map_of regionMap key of
           None \<Rightarrow> AList.update key region regionMap
         | Some existing \<Rightarrow> AList.update key (region_merge existing region) regionMap)"

definition region_campaign :: "Campaign \<Rightarrow> (string \<times> RegionalPerformance) list
    \<Rightarrow> (string \<times> RegionalPerformance) list" where
  "region_campaign campaign regionMap =
     (case regional_performance campaign of
        None \<Rightarrow> regionMap
      | Some rs \<Rightarrow> fold (\<lambda>region m. region_step m region) rs regionMap)"

definition regionMap_of :: "Campaign list \<Rightarrow> (string \<times> RegionalPerformance) list" where
  "regionMap_of cs = fold region_campaign cs []"

text \<open>
  \<open>Array.prototype.sort\<close> is stable; with the comparator \<open>b.revenue - a.revenue\<close>
  it orders by descending revenue, which is the stable insertion sort on the negated key.
\<close>

definition regionalData :: "MarketingData option \<Rightarrow> RegionalPerformance list" where
  "regionalData marketingData =
     (case marketingData of
        None \<Rightarrow> []
      | Some md \<Rightarrow>
          (case campaigns md of
             None \<Rightarrow> []
           | Some cs \<Rightarrow> sort_key (\<lambda>r. - rp_revenue r) (map snd (regionMap_of cs))))"

section \<open>Weekly rollup (WeeklyView, \<open>weeklyData\<close>)\<close>

definition week_merge :: "WeeklyPerformance \<Rightarrow> WeeklyPerformance \<Rightarrow> WeeklyPerformance" where
  "week_merge existing week =
     existing\<lparr>wp_impressions := wp_impressions existing + wp_impressions week,
              wp_clicks := wp_clicks existing + wp_clicks week,
              wp_conversions := wp_conversions existing + wp_conversions week,
              wp_spend := wp_spend existing + wp_spend week,
              wp_revenue := wp_revenue existing + wp_revenue week\<rparr>"

definition week_step :: "(string \<times> WeeklyPerformance) list \<Rightarrow> WeeklyPerformance
    \<Rightarrow> (string \<times> WeeklyPerformance) list" where
  "week_step weekMap week =
     (let key = wp_week_start week
      in case map_of weekMap key of
           None \<Rightarrow> AList.update key week weekMap
         | Some existing \<Rightarrow> AList.update key (week_merge existing week) weekMap)"

definition week_campaign :: "Campaign \<Rightarrow> (string \<times> WeeklyPerformance) list
    \<Rightarrow> (string \<times> WeeklyPerformance) list" where
  "week_campaign campaign weekMap =
     (case weekly_performance campaign of
        None \<Rightarrow> weekMap
      | Some ws \<Rightarrow> fold (\<lambda>week m. week_step m week) ws weekMap)"

definition weekMap_of :: "Campaign list \<Rightarrow> (string \<times> WeeklyPerformance) list" where
  "weekMap_of cs = fold week_campaign cs []"

text \<open>
  \<open>new Date(s).getTime()\<close> is the platform's date parser, not code of this
  repository: it is the parameter \<open>getTime\<close>, the chronological value (milliseconds
  since the epoch) of a date string.  Strings that do not parse (\<open>NaN\<close>) are outside
  the model.  The comparator \<open>getTime a - getTime b\<close> with the stable
  \<open>Array.prototype.sort\<close> is the stable sort on the key \<open>getTime\<close>.
\<close>

definition weeklyData :: "(string \<Rightarrow> int) \<Rightarrow> MarketingData option \<Rightarrow> WeeklyPerformance list" where
  "weeklyData getTime marketingData =
     (case marketingData of
        None \<Rightarrow> []
      | Some md \<Rightarrow>
          (case campaigns md of
             None \<Rightarrow> []
           | Some cs \<Rightarrow> sort_key (\<lambda>w. getTime (wp_week_start w)) (map snd (weekMap_of cs))))"

section \<open>Device rollup (DeviceView, \<open>deviceData\<close>)\<close>

record CampaignDeviceBreakdown =
  cdb_campaign :: string
  cdb_device :: string
  cdb_impressions :: real
  cdb_clicks :: real
  cdb_conversions :: real
  cdb_spend :: real
  cdb_revenue :: real
  cdb_ctr :: real
  cdb_conversion_rate :: real
  cdb_roas :: real

text \<open>
  The loop variables \<open>mobileAgg\<close>, \<open>desktopAgg\<close> and \<open>campaignBreakdown\<close> are the
  fields \<open>mobileData\<close>, \<open>desktopData\<close> and \<open>campaignDeviceBreakdown\<close> of the value
  returned, so the loop state is the result record itself.
\<close>

record AggregatedDeviceData =
  mobileData :: DevicePerformance
  desktopData :: DevicePerformance
  campaignDeviceBreakdown :: "CampaignDeviceBreakdown list"

definition emptyAgg :: "string \<Rightarrow> DevicePerformance" where
  "emptyAgg d =
     \<lparr>dp_device = d, dp_impressions = 0, dp_clicks = 0, dp_conversions = 0, dp_spend = 0,
      dp_revenue = 0, dp_ctr = 0, dp_conversion_rate = 0, dp_percentage_of_traffic = 0\<rparr>"

definition emptyDeviceData :: AggregatedDeviceData where
  "emptyDeviceData =
     \<lparr>mobileData = emptyAgg ''Mobile'', desktopData = emptyAgg ''Desktop'',
      campaignDeviceBreakdown = []\<rparr>"

text \<open>The five \<open>+=\<close> of either branch, on the bucket \<open>agg\<close>.\<close>

definition device_acc :: "DevicePerformance \<Rightarrow> DevicePerformance \<Rightarrow> DevicePerformance" where
  "device_acc agg device =
     agg\<lparr>dp_impressions := dp_impressions agg + dp_impressions device,
         dp_clicks := dp_clicks agg + dp_clicks device,
         dp_conversions := dp_conversions agg + dp_conversions device,
         dp_spend := dp_spend agg + dp_spend device,
         dp_revenue := dp_revenue agg + dp_revenue device\<rparr>"

definition device_row :: "Campaign \<Rightarrow> DevicePerformance \<Rightarrow> CampaignDeviceBreakdown" where
  "device_row campaign device =
     \<lparr>cdb_campaign = name campaign, cdb_device = dp_device device,
      cdb_impressions = dp_impressions device, cdb_clicks = dp_clicks device,
      cdb_conversions = dp_conversions device, cdb_spend = dp_spend device,
      cdb_revenue = dp_revenue device, cdb_ctr = dp_ctr device,
      cdb_conversion_rate = dp_conversion_rate device,
      cdb_roas = (if dp_spend device > 0 then dp_revenue device / dp_spend device else 0)\<rparr>"

definition device_step :: "Campaign \<Rightarrow> DevicePerformance \<Rightarrow> AggregatedDeviceData
    \<Rightarrow> AggregatedDeviceData" where
  "device_step campaign device st =
     (let st1 = (if dp_device device = ''Mobile''
                 then st\<lparr>mobileData := device_acc (mobileData st) device\<rparr>
                 else if dp_device device = ''Desktop''
                 then st\<lparr>desktopData := device_acc (desktopData st) device\<rparr>
                 else st)
      in st1\<lparr>campaignDeviceBreakdown :=
               campaignDeviceBreakdown st1 @ [device_row campaign device]\<rparr>)"

definition device_campaign :: "Campaign \<Rightarrow> AggregatedDeviceData \<Rightarrow> AggregatedDeviceData" where
  "device_campaign campaign st =
     (case device_performance campaign of
        None \<Rightarrow> st
      | Some ds \<Rightarrow> fold (device_step campaign) ds st)"

text \<open>
  The statements after the loop.  They assign \<open>ctr\<close>, \<open>conversion_rate\<close> and
  \<open>percentage_of_traffic\<close> only, so every read of \<open>impressions\<close>, \<open>clicks\<close> and
  \<open>conversions\<close> sees the sums the loop left in \<open>mobileAgg\<close> and \<open>desktopAgg\<close>.
  The arithmetic is that of the real numbers here; the same statements with every
  operation rounded to a double are \<open>device_finish_double\<close> below, on which the sum
  of the two traffic percentages is read.
\<close>

definition device_finish :: "AggregatedDeviceData \<Rightarrow> AggregatedDeviceData" where
  "device_finish st =
     (let mobileAgg = mobileData st;
          desktopAgg = desktopData st;
          totalImpressions = dp_impressions mobileAgg + dp_impressions desktopAgg
      in \<lparr>mobileData =
            mobileAgg\<lparr>dp_ctr :=
                        (if dp_impressions mobileAgg > 0
                         then (dp_clicks mobileAgg / dp_impressions mobileAgg) * 100 else 0),
                      dp_conversion_rate :=
                        (if dp_clicks mobileAgg > 0
                         then (dp_conversions mobileAgg / dp_clicks mobileAgg) * 100 else 0),
                      dp_percentage_of_traffic :=
                        (if totalImpressions > 0
                         then (dp_impressions mobileAgg / totalImpressions) * 100 else 0)\<rparr>,
          desktopData =
            desktopAgg\<lparr>dp_ctr :=
                         (if dp_impressions desktopAgg > 0
                          then (dp_clicks desktopAgg / dp_impressions desktopAgg) * 100 else 0),
                       dp_conversion_rate :=
                         (if dp_clicks desktopAgg > 0
                          then (dp_conversions desktopAgg / dp_clicks desktopAgg) * 100 else 0),
                       dp_percentage_of_traffic :=
                         (if totalImpressions > 0
                          then (dp_impressions desktopAgg / totalImpressions) * 100 else 0)\<rparr>,
          campaignDeviceBreakdown = campaignDeviceBreakdown st\<rparr>)"

definition deviceData :: "MarketingData option \<Rightarrow> AggregatedDeviceData" where
  "deviceData marketingData =
     (case marketingData of
        None \<Rightarrow> emptyDeviceData
      | Some md \<Rightarrow>
          (case campaigns md of
             None \<Rightarrow> emptyDeviceData
           | Some cs \<Rightarrow> device_finish (fold device_campaign cs emptyDeviceData)))"

section \<open>Demographic rollup (DemographicView, \<open>demographicData\<close>)\<close>

record CampaignAgePerformance =
  cap_campaign :: string
  cap_age_group :: string
  cap_impressions :: real
  cap_clicks :: real
  cap_conversions :: real
  cap_ctr :: real
  cap_conversion_rate :: real

text \<open>
  The two dictionaries \<open>{ [key: string]: number }\<close> are plain objects created by
  \<open>{}\<close>.  Their own properties are a map.  A read of a key that is not an own property
  finds the members every plain object inherits from \<open>Object.prototype\<close>: a function,
  or the prototype object itself for \<open>__proto__\<close>.  Such a value is truthy, and \<open>+=\<close>
  of a number to it builds a string, so a dictionary entry is a number or a text (whose
  characters the model does not track).  The same holds for the coordinate table of the
  bubble map.
\<close>

definition object_prototype_keys :: "string list" where
  "object_prototype_keys =
     [''constructor'', ''hasOwnProperty'', ''isPrototypeOf'', ''propertyIsEnumerable'',
      ''toLocaleString'', ''toString'', ''valueOf'', ''__proto__'', ''__defineGetter__'',
      ''__defineSetter__'', ''__lookupGetter__'', ''__lookupSetter__'']"

datatype dict_value = Num real | Text

datatype dict_read = Undefined | Own dict_value | Inherited

definition js_get :: "(string \<rightharpoonup> dict_value) \<Rightarrow> string \<Rightarrow> dict_read" where
  "js_get obj k =
     (case obj k of
        Some v \<Rightarrow> Own v
      | None \<Rightarrow> if k \<in> set object_prototype_keys then Inherited else Undefined)"

text \<open>
  An assignment \<open>obj[k] = v\<close> of a number or a string creates or overwrites the own
  property, except for the key \<open>__proto__\<close>, whose setter ignores such values.
\<close>

definition js_set :: "(string \<rightharpoonup> dict_value) \<Rightarrow> string \<Rightarrow> dict_value
    \<Rightarrow> (string \<rightharpoonup> dict_value)" where
  "js_set obj k v = (if k = ''__proto__'' then obj else obj(k \<mapsto> v))"

text \<open>
  The locals \<open>malePerformance\<close> and \<open>femalePerformance\<close> are returned as
  \<open>maleAgeGroupPerformance\<close> and \<open>femaleAgeGroupPerformance\<close>; the loop state is the
  result record.
\<close>

record AggregatedDemographicData =
  maleClicks :: real
  maleSpend :: real
  maleRevenue :: real
  femaleClicks :: real
  femaleSpend :: real
  femaleRevenue :: real
  ageGroupSpend :: "string \<rightharpoonup> dict_value"
  ageGroupRevenue :: "string \<rightharpoonup> dict_value"
  maleAgeGroupPerformance :: "CampaignAgePerformance list"
  femaleAgeGroupPerformance :: "CampaignAgePerformance list"

definition emptyDemographicData :: AggregatedDemographicData where
  "emptyDemographicData =
     \<lparr>maleClicks = 0, maleSpend = 0, maleRevenue = 0,
      femaleClicks = 0, femaleSpend = 0, femaleRevenue = 0,
      ageGroupSpend = Map.empty, ageGroupRevenue = Map.empty,
      maleAgeGroupPerformance = [], femaleAgeGroupPerformance = []\<rparr>"

definition percentageMultiplier :: "DemographicBreakdown \<Rightarrow> real" where
  "percentageMultiplier demo = percentage_of_audience demo / 100"

definition demoClicks :: "DemographicBreakdown \<Rightarrow> real" where
  "demoClicks demo = perf_clicks (performance demo)"

definition demoSpend :: "Campaign \<Rightarrow> DemographicBreakdown \<Rightarrow> real" where
  "demoSpend campaign demo = spend campaign * percentageMultiplier demo"

definition demoRevenue :: "Campaign \<Rightarrow> DemographicBreakdown \<Rightarrow> real" where
  "demoRevenue campaign demo = revenue campaign * percentageMultiplier demo"

definition age_performance :: "Campaign \<Rightarrow> DemographicBreakdown \<Rightarrow> CampaignAgePerformance" where
  "age_performance campaign demo =
     \<lparr>cap_campaign = name campaign, cap_age_group = age_group demo,
      cap_impressions = perf_impressions (performance demo),
      cap_clicks = perf_clicks (performance demo),
      cap_conversions = perf_conversions (performance demo),
      cap_ctr = perf_ctr (performance demo),
      cap_conversion_rate = perf_conversion_rate (performance demo)\<rparr>"

text \<open>The \<open>if (demo.gender === "Male") ... else if (demo.gender === "Female") ...\<close> part.\<close>

definition demo_gender :: "Campaign \<Rightarrow> DemographicBreakdown \<Rightarrow> AggregatedDemographicData
    \<Rightarrow> AggregatedDemographicData" where
  "demo_gender campaign demo st =
     (if gender demo = ''Male''
      then st\<lparr>maleClicks := maleClicks st + demoClicks demo,
              maleSpend := maleSpend st + demoSpend campaign demo,
              maleRevenue := maleRevenue st + demoRevenue campaign demo,
              maleAgeGroupPerformance :=
                maleAgeGroupPerformance st @ [age_performance campaign demo]\<rparr>
      else if gender demo = ''Female''
      then st\<lparr>femaleClicks := femaleClicks st + demoClicks demo,
              femaleSpend := femaleSpend st + demoSpend campaign demo,
              femaleRevenue := femaleRevenue st + demoRevenue campaign demo,
              femaleAgeGroupPerformance :=
                femaleAgeGroupPerformance st @ [age_performance campaign demo]\<rparr>
      else st)"

text \<open>
  \<open>!ageGroupSpend[k]\<close> holds when the read is \<open>undefined\<close> and also when the stored
  number is \<open>0\<close>; a text (never empty) and an inherited member are truthy.
\<close>

definition js_falsy :: "dict_read \<Rightarrow> bool" where
  "js_falsy r =
     (case r of
        Undefined \<Rightarrow> True
      | Own v \<Rightarrow> (case v of Num x \<Rightarrow> x = 0 | Text \<Rightarrow> False)
      | Inherited \<Rightarrow> False)"

text \<open>
  The value \<open>d[k] += x\<close> stores, from what the read of \<open>d[k]\<close> finds: the sum for a
  number, a text for a text or an inherited member.  For \<open>undefined\<close> it is \<open>NaN\<close>,
  which is not a real: \<open>None\<close>.
\<close>

definition js_add :: "dict_read \<Rightarrow> real \<Rightarrow> dict_value option" where
  "js_add r x =
     (case r of
        Undefined \<Rightarrow> None
      | Own v \<Rightarrow> (case v of Num a \<Rightarrow> Some (Num (a + x)) | Text \<Rightarrow> Some Text)
      | Inherited \<Rightarrow> Some Text)"

text \<open>The age-group part of the loop body.\<close>

definition demo_age :: "Campaign \<Rightarrow> DemographicBreakdown \<Rightarrow> AggregatedDemographicData
    \<Rightarrow> AggregatedDemographicData option" where
  "demo_age campaign demo st =
     (let k = age_group demo;
          st1 = (if js_falsy (js_get (ageGroupSpend st) k)
                 then st\<lparr>ageGroupSpend := js_set (ageGroupSpend st) k (Num 0),
                         ageGroupRevenue := js_set (ageGroupRevenue st) k (Num 0)\<rparr>
                 else st)
      in case js_add (js_get (ageGroupSpend st1) k) (demoSpend campaign demo) of
           None \<Rightarrow> None
         | Some s \<Rightarrow>
             (case js_add (js_get (ageGroupRevenue st1) k) (demoRevenue campaign demo) of
                None \<Rightarrow> None
              | Some r \<Rightarrow>
                  Some (st1\<lparr>ageGroupSpend := js_set (ageGroupSpend st1) k s,
                            ageGroupRevenue := js_set (ageGroupRevenue st1) k r\<rparr>)))"

definition demo_step :: "Campaign \<Rightarrow> DemographicBreakdown \<Rightarrow> AggregatedDemographicData
    \<Rightarrow> AggregatedDemographicData option" where
  "demo_step campaign demo st = demo_age campaign demo (demo_gender campaign demo st)"

fun demo_slices :: "Campaign \<Rightarrow> DemographicBreakdown list \<Rightarrow> AggregatedDemographicData
    \<Rightarrow> AggregatedDemographicData option" where
  "demo_slices campaign [] st = Some st"
| "demo_slices campaign (demo # ds) st =
     (case demo_step campaign demo st of
        None \<Rightarrow> None
      | Some st' \<Rightarrow> demo_slices campaign ds st')"

fun demo_campaigns :: "Campaign list \<Rightarrow> AggregatedDemographicData
    \<Rightarrow> AggregatedDemographicData option" where
  "demo_campaigns [] st = Some st"
| "demo_campaigns (campaign # cs) st =
     (case demographic_breakdown campaign of
        None \<Rightarrow> demo_campaigns cs st
      | Some ds \<Rightarrow>
          (case demo_slices campaign ds st of
             None \<Rightarrow> None
           | Some st' \<Rightarrow> demo_campaigns cs st'))"

definition demographicData :: "MarketingData option \<Rightarrow> AggregatedDemographicData option" where
  "demographicData marketingData =
     (case marketingData of
        None \<Rightarrow> Some emptyDemographicData
      | Some md \<Rightarrow>
          (case campaigns md of
             None \<Rightarrow> Some emptyDemographicData
           | Some cs \<Rightarrow> demo_campaigns cs emptyDemographicData))"

section \<open>Line chart scale (\<open>LineChart\<close>)\<close>

record LineChartDataPoint =
  pt_label :: string
  pt_value :: real

record LineChartSeries =
  series_name :: string
  series_data :: "LineChartDataPoint list"
  series_color :: string

text \<open>
  \<open>Math.max(...vs)\<close> and \<open>Math.min(...vs)\<close>.  On an empty argument list they return
  \<open>-Infinity\<close> and \<open>Infinity\<close>, which are not reals: \<open>None\<close>.
\<close>

fun Math_max :: "real list \<Rightarrow> real option" where
  "Math_max [] = None"
| "Math_max (v # vs) = Some (fold max vs v)"

fun Math_min :: "real list \<Rightarrow> real option" where
  "Math_min [] = None"
| "Math_min (v # vs) = Some (fold min vs v)"

definition allValues :: "LineChartSeries list \<Rightarrow> real list" where
  "allValues series = concat (map (\<lambda>s. map pt_value (series_data s)) series)"

text \<open>The constants computed before the chart is drawn, under their source names.\<close>

record ChartScale =
  maxValue :: real
  minValue :: real
  valueRange :: real
  padding :: real
  chartMin :: real
  chartMax :: real
  chartRange :: real
  chartHeight :: real

text \<open>
  \<open>None\<close> is the "No data available" placeholder, returned when there is no series or
  every series is empty.  \<open>height\<close> is the component's property (default 300).
\<close>

definition chartScale :: "real \<Rightarrow> LineChartSeries list \<Rightarrow> ChartScale option" where
  "chartScale height series =
     (if series = [] \<or> list_all (\<lambda>s. series_data s = []) series then None
      else
        (case Math_max (allValues series) of
           None \<Rightarrow> None
         | Some maxV \<Rightarrow>
             (case Math_min (allValues series) of
                None \<Rightarrow> None
              | Some minV \<Rightarrow>
                  (let range = maxV - minV;
                       pad = range * (1 / 10);
                       cMin = max 0 (minV - pad);
                       cMax = maxV + pad
                   in Some \<lparr>maxValue = maxV, minValue = minV, valueRange = range,
                            padding = pad, chartMin = cMin, chartMax = cMax,
                            chartRange = cMax - cMin, chartHeight = height - 80\<rparr>))))"

definition getYPosition :: "ChartScale \<Rightarrow> real \<Rightarrow> real" where
  "getYPosition sc v =
     (if chartRange sc = 0 then chartHeight sc / 2
      else chartHeight sc - ((v - chartMin sc) / chartRange sc) * chartHeight sc)"

section \<open>Bubble map sizes (\<open>BubbleMap\<close>, \<open>enrichedData\<close>)\<close>

record BubbleMapDataPoint =
  bm_region :: string
  bm_country :: string
  bm_value :: real
  bm_secondaryValue :: "real option"

text \<open>
  The spread \<open>{ ...d, x, y, size, opacity }\<close> extends the data point; \<open>x\<close> and \<open>y\<close>
  are \<open>None\<close> when they are \<open>undefined\<close>.
\<close>

record EnrichedPoint = BubbleMapDataPoint +
  bm_x :: "real option"
  bm_y :: "real option"
  bm_size :: real
  bm_opacity :: real

definition UAE_COORDINATES :: "(string \<times> real \<times> real) list" where
  "UAE_COORDINATES =
     [(''Dubai'', 62, 58), (''Abu Dhabi'', 45, 65), (''Sharjah'', 65, 56), (''Ajman'', 67, 54),
      (''Ras Al Khaimah'', 70, 42), (''Fujairah'', 75, 52), (''Umm Al Quwain'', 68, 50),
      (''Al Ain'', 52, 68)]"

text \<open>
  \<open>UAE_COORDINATES[d.region] || UAE_COORDINATES["Dubai"]\<close> on the plain object: an own
  key gives its coordinates, a key inherited from \<open>Object.prototype\<close> gives a truthy
  member that has no \<open>x\<close> and no \<open>y\<close> (\<open>None\<close>: both are \<open>undefined\<close>), any
  other key falls back to the entry of Dubai.
\<close>

definition coords_of :: "string \<Rightarrow> (real \<times> real) option" where
  "coords_of region =
     (case map_of UAE_COORDINATES region of
        Some c \<Rightarrow> Some c
      | None \<Rightarrow>
          if region \<in> set object_prototype_keys then None
          else map_of UAE_COORDINATES ''Dubai'')"

definition normalizedValue :: "real \<Rightarrow> real \<Rightarrow> real \<Rightarrow> real" where
  "normalizedValue minV maxV v =
     (if maxV = minV then 1 / 2 else sqrt ((v - minV) / (maxV - minV)))"

definition enrich :: "real \<Rightarrow> real \<Rightarrow> BubbleMapDataPoint \<Rightarrow> EnrichedPoint" where
  "enrich minV maxV d =
     (let coords = coords_of (bm_region d);
          nv = normalizedValue minV maxV (bm_value d);
          size = 8 + nv * 24
      in \<lparr>bm_region = bm_region d, bm_country = bm_country d, bm_value = bm_value d,
          bm_secondaryValue = bm_secondaryValue d,
          bm_x = map_option fst coords, bm_y = map_option snd coords, bm_size = size,
          bm_opacity = 7 / 10 + nv * (3 / 10)\<rparr>)"

text \<open>
  The comparator \<open>b.size - a.size\<close> with the stable sort: larger bubbles first.
\<close>

definition enrichedData :: "BubbleMapDataPoint list \<Rightarrow> EnrichedPoint list" where
  "enrichedData data =
     (if data = [] then []
      else
        (case Math_max (map bm_value data) of
           None \<Rightarrow> []
         | Some maxV \<Rightarrow>
             (case Math_min (map bm_value data) of
                None \<Rightarrow> []
              | Some minV \<Rightarrow> sort_key (\<lambda>e. - bm_size e) (map (enrich minV maxV) data))))"

section \<open>Reading the rollups: groups, first occurrences, merged entries\<close>

text \<open>
  The weekly and the regional rollup are the same loop over different records: look the
  record's key up, insert the record when the key is new, merge it into the stored entry
  otherwise.  \<open>rollup_step\<close> is that loop body for any key and any merge function;
  \<open>week_step\<close> and \<open>region_step\<close> are instances of it (lemmas
  \<open>week_step_rollup\<close> and \<open>region_step_rollup\<close>).
\<close>

definition rollup_step :: "('r \<Rightarrow> 'k) \<Rightarrow> ('r \<Rightarrow> 'r \<Rightarrow> 'r) \<Rightarrow> ('k \<times> 'r) list \<Rightarrow> 'r
    \<Rightarrow> ('k \<times> 'r) list" where
  "rollup_step key merge m r =
     (case map_of m (key r) of
        None \<Rightarrow> AList.update (key r) r m
      | Some existing \<Rightarrow> AList.update (key r) (merge existing r) m)"

definition rollup :: "('r \<Rightarrow> 'k) \<Rightarrow> ('r \<Rightarrow> 'r \<Rightarrow> 'r) \<Rightarrow> 'r list \<Rightarrow> ('k \<times> 'r) list
    \<Rightarrow> ('k \<times> 'r) list" where
  "rollup key merge rs m = fold (\<lambda>r m. rollup_step key merge m r) rs m"

text \<open>The distinct elements of a list, each at its first occurrence (encounter order).\<close>

fun first_keys :: "'a list \<Rightarrow> 'a list" where
  "first_keys [] = []"
| "first_keys (x # xs) = x # first_keys (removeAll x xs)"

text \<open>
  What a group of records with one key becomes: the first record seeds the entry, the
  others are merged into it one after the other.
\<close>

definition merged :: "('r \<Rightarrow> 'r \<Rightarrow> 'r) \<Rightarrow> 'r list \<Rightarrow> 'r option" where
  "merged merge g = (case g of [] \<Rightarrow> None | f # rest \<Rightarrow> Some (foldl merge f rest))"

text \<open>The breakdown records of all campaigns, in the order the loops visit them.\<close>

definition all_regional :: "Campaign list \<Rightarrow> RegionalPerformance list" where
  "all_regional cs =
     concat (map (\<lambda>c. case regional_performance c of None \<Rightarrow> [] | Some rs \<Rightarrow> rs) cs)"

definition all_weekly :: "Campaign list \<Rightarrow> WeeklyPerformance list" where
  "all_weekly cs =
     concat (map (\<lambda>c. case weekly_performance c of None \<Rightarrow> [] | Some ws \<Rightarrow> ws) cs)"

definition region_group :: "string \<Rightarrow> Campaign list \<Rightarrow> RegionalPerformance list" where
  "region_group k cs = filter (\<lambda>r. rp_region r = k) (all_regional cs)"

definition week_group :: "string \<Rightarrow> Campaign list \<Rightarrow> WeeklyPerformance list" where
  "week_group k cs = filter (\<lambda>w. wp_week_start w = k) (all_weekly cs)"

text \<open>
  The five raw fields of a regional entry are the sums over a group of records.
\<close>

definition region_sums :: "RegionalPerformance \<Rightarrow> RegionalPerformance list \<Rightarrow> bool" where
  "region_sums e g \<longleftrightarrow>
     rp_impressions e = sum_list (map rp_impressions g) \<and>
     rp_clicks e = sum_list (map rp_clicks g) \<and>
     rp_conversions e = sum_list (map rp_conversions g) \<and>
     rp_spend e = sum_list (map rp_spend g) \<and>
     rp_revenue e = sum_list (map rp_revenue g)"

text \<open>
  The stored rates of a regional entry are the ratios of its own stored sums, with the
  guard of the code: the ratio when the denominator is positive, 0 otherwise.
\<close>

definition rates_recomputed :: "RegionalPerformance \<Rightarrow> bool" where
  "rates_recomputed e \<longleftrightarrow>
     rp_ctr e = (if 0 < rp_impressions e then rp_clicks e / rp_impressions e * 100 else 0) \<and>
     rp_conversion_rate e = (if 0 < rp_clicks e then rp_conversions e / rp_clicks e * 100 else 0) \<and>
     rp_cpc e = (if 0 < rp_clicks e then rp_spend e / rp_clicks e else 0) \<and>
     rp_cpa e = (if 0 < rp_conversions e then rp_spend e / rp_conversions e else 0) \<and>
     rp_roas e = (if 0 < rp_spend e then rp_revenue e / rp_spend e else 0)"

text \<open>
  The same in the words of the specification: each rate is the ratio of the sums, and 0
  when its denominator is 0.  The two readings agree on the records of the data model,
  whose impressions, clicks, conversions and spend are not negative.
\<close>

definition rates_from_sums :: "RegionalPerformance \<Rightarrow> bool" where
  "rates_from_sums e \<longleftrightarrow>
     rp_ctr e = (if rp_impressions e = 0 then 0 else rp_clicks e / rp_impressions e * 100) \<and>
     rp_conversion_rate e = (if rp_clicks e = 0 then 0 else rp_conversions e / rp_clicks e * 100) \<and>
     rp_cpc e = (if rp_clicks e = 0 then 0 else rp_spend e / rp_clicks e) \<and>
     rp_cpa e = (if rp_conversions e = 0 then 0 else rp_spend e / rp_conversions e) \<and>
     rp_roas e = (if rp_spend e = 0 then 0 else rp_revenue e / rp_spend e)"

definition region_counts_ok :: "RegionalPerformance \<Rightarrow> bool" where
  "region_counts_ok r \<longleftrightarrow>
     0 \<le> rp_impressions r \<and> 0 \<le> rp_clicks r \<and> 0 \<le> rp_conversions r \<and> 0 \<le> rp_spend r"

text \<open>
  The weekly entry in the words of the specification: a copy of the first record of the
  group, with the five raw fields replaced by the sums over the whole group.
\<close>

definition week_entry :: "WeeklyPerformance list \<Rightarrow> WeeklyPerformance" where
  "week_entry g =
     (hd g)\<lparr>wp_impressions := sum_list (map wp_impressions g),
            wp_clicks := sum_list (map wp_clicks g),
            wp_conversions := sum_list (map wp_conversions g),
            wp_spend := sum_list (map wp_spend g),
            wp_revenue := sum_list (map wp_revenue g)\<rparr>"

section \<open>Example inputs\<close>

definition campaign_with :: "string \<Rightarrow> real \<Rightarrow> real \<Rightarrow> Campaign" where
  "campaign_with n s r =
     \<lparr>name = n, spend = s, revenue = r, demographic_breakdown = None,
      device_performance = None, weekly_performance = None, regional_performance = None\<rparr>"

definition ex_dubai_a :: RegionalPerformance where
  "ex_dubai_a =
     \<lparr>rp_region = ''Dubai'', rp_country = ''UAE'', rp_impressions = 1000, rp_clicks = 100,
      rp_conversions = 10, rp_spend = 100, rp_revenue = 200, rp_ctr = 10,
      rp_conversion_rate = 10, rp_cpc = 1, rp_cpa = 10, rp_roas = 2\<rparr>"

definition ex_dubai_b :: RegionalPerformance where
  "ex_dubai_b =
     \<lparr>rp_region = ''Dubai'', rp_country = ''UAE'', rp_impressions = 500, rp_clicks = 20,
      rp_conversions = 4, rp_spend = 50, rp_revenue = 50, rp_ctr = 4,
      rp_conversion_rate = 20, rp_cpc = 5 / 2, rp_cpa = 25 / 2, rp_roas = 1\<rparr>"

definition ex_regional_cs :: "Campaign list" where
  "ex_regional_cs =
     [(campaign_with ''A'' 100 200)\<lparr>regional_performance := Some [ex_dubai_a]\<rparr>,
      (campaign_with ''B'' 50 50)\<lparr>regional_performance := Some [ex_dubai_b]\<rparr>]"

definition ex_week :: "string \<Rightarrow> string \<Rightarrow> real \<Rightarrow> WeeklyPerformance" where
  "ex_week ws we c =
     \<lparr>wp_week_start = ws, wp_week_end = we, wp_impressions = 100 * c, wp_clicks = c,
      wp_conversions = 1, wp_spend = 10, wp_revenue = 40\<rparr>"

definition ex_weekly_cs :: "Campaign list" where
  "ex_weekly_cs =
     [(campaign_with ''A'' 10 40)\<lparr>weekly_performance :=
         Some [ex_week ''2024-01-01'' ''2024-01-07'' 10]\<rparr>,
      (campaign_with ''B'' 10 40)\<lparr>weekly_performance :=
         Some [ex_week ''2024-01-01'' ''2024-01-07'' 20]\<rparr>]"

text \<open>
  A second weekly input, whose first record is the later week, and the values of
  \<open>getTime\<close> on its two dates (milliseconds since the epoch, UTC midnight).
\<close>

definition ex_weekly_cs2 :: "Campaign list" where
  "ex_weekly_cs2 =
     [(campaign_with ''A'' 20 80)\<lparr>weekly_performance :=
         Some [ex_week ''2024-01-08'' ''2024-01-14'' 5, ex_week ''2024-01-01'' ''2024-01-07'' 10]\<rparr>,
      (campaign_with ''B'' 10 40)\<lparr>weekly_performance :=
         Some [ex_week ''2024-01-01'' ''2024-01-07'' 20]\<rparr>]"

definition ex_getTime :: "string \<Rightarrow> int" where
  "ex_getTime s =
     (if s = ''2024-01-01'' then 1704067200000
      else if s = ''2024-01-08'' then 1704672000000 else 0)"

section \<open>Reading the demographic rollup\<close>

text \<open>
  Every age group with a spend entry has a revenue entry: what the loop maintains, and
  what makes the \<open>+=\<close> on the revenue dictionary find its key.
\<close>

definition age_maps_ok :: "AggregatedDemographicData \<Rightarrow> bool" where
  "age_maps_ok st \<longleftrightarrow> dom (ageGroupSpend st) \<subseteq> dom (ageGroupRevenue st)"

text \<open>
  The gender side of the result: the male and female totals of clicks, spend and revenue,
  and the two per-gender performance sequences.
\<close>

definition gender_part :: "AggregatedDemographicData \<Rightarrow>
    (real \<times> real \<times> real) \<times> (real \<times> real \<times> real) \<times>
    CampaignAgePerformance list \<times> CampaignAgePerformance list" where
  "gender_part st =
     ((maleClicks st, maleSpend st, maleRevenue st),
      (femaleClicks st, femaleSpend st, femaleRevenue st),
      maleAgeGroupPerformance st, femaleAgeGroupPerformance st)"

text \<open>The slices the gender branch of the loop acts on.\<close>

definition male_or_female :: "DemographicBreakdown \<Rightarrow> bool" where
  "male_or_female demo \<longleftrightarrow> gender demo = ''Male'' \<or> gender demo = ''Female''"

text \<open>A campaign with the slices of any other gender removed.\<close>

definition only_male_female :: "Campaign \<Rightarrow> Campaign" where
  "only_male_female c =
     c\<lparr>demographic_breakdown := map_option (filter male_or_female) (demographic_breakdown c)\<rparr>"

text \<open>The gender totals of a whole run, read off the slices alone.\<close>

definition gender_campaign :: "Campaign \<Rightarrow> AggregatedDemographicData \<Rightarrow> AggregatedDemographicData" where
  "gender_campaign c st =
     (case demographic_breakdown c of None \<Rightarrow> st | Some ds \<Rightarrow> fold (demo_gender c) ds st)"

definition gender_run :: "Campaign list \<Rightarrow> AggregatedDemographicData \<Rightarrow> AggregatedDemographicData" where
  "gender_run cs st = fold gender_campaign cs st"

definition ex_slice :: "string \<Rightarrow> string \<Rightarrow> real \<Rightarrow> real \<Rightarrow> DemographicBreakdown" where
  "ex_slice g a p c =
     \<lparr>gender = g, age_group = a, percentage_of_audience = p,
      performance = \<lparr>perf_impressions = 100 * c, perf_clicks = c, perf_conversions = 1,
                     perf_ctr = 1, perf_conversion_rate = 100 / c\<rparr>\<rparr>"

text \<open>
  A campaign that has revenue and no spend, with a male slice and a slice of another
  gender in the same age group.
\<close>

definition ex_unpaid :: Campaign where
  "ex_unpaid = campaign_with ''Organic'' 0 1000"

definition ex_unpaid_cs :: "Campaign list" where
  "ex_unpaid_cs =
     [ex_unpaid\<lparr>demographic_breakdown :=
        Some [ex_slice ''Male'' ''18-24'' 5 50, ex_slice ''Other'' ''18-24'' 1 5]\<rparr>]"

text \<open>The age-group entries the loop holds after the male slice of that campaign.\<close>

definition ex_after_male :: AggregatedDemographicData where
  "ex_after_male =
     emptyDemographicData\<lparr>ageGroupSpend := [''18-24'' \<mapsto> Num 0],
                           ageGroupRevenue := [''18-24'' \<mapsto> Num 50]\<rparr>"

section \<open>Reading the device rollup\<close>

text \<open>The device records of all campaigns, and those of one bucket.\<close>

definition all_devices :: "Campaign list \<Rightarrow> DevicePerformance list" where
  "all_devices cs =
     concat (map (\<lambda>c. case device_performance c of None \<Rightarrow> [] | Some ds \<Rightarrow> ds) cs)"

definition device_bucket :: "string \<Rightarrow> Campaign list \<Rightarrow> DevicePerformance list" where
  "device_bucket d cs = filter (\<lambda>x. dp_device x = d) (all_devices cs)"

text \<open>The five raw fields of a bucket are the sums over its records.\<close>

definition device_sums :: "DevicePerformance \<Rightarrow> DevicePerformance list \<Rightarrow> bool" where
  "device_sums agg b \<longleftrightarrow>
     dp_impressions agg = sum_list (map dp_impressions b) \<and>
     dp_clicks agg = sum_list (map dp_clicks b) \<and>
     dp_conversions agg = sum_list (map dp_conversions b) \<and>
     dp_spend agg = sum_list (map dp_spend b) \<and>
     dp_revenue agg = sum_list (map dp_revenue b)"

text \<open>
  The two rates of a bucket are recomputed from its own sums, with the guard of the code
  (the ratio when the denominator is positive, 0 otherwise).
\<close>

definition device_rates_recomputed :: "DevicePerformance \<Rightarrow> bool" where
  "device_rates_recomputed agg \<longleftrightarrow>
     dp_ctr agg = (if 0 < dp_impressions agg then dp_clicks agg / dp_impressions agg * 100 else 0) \<and>
     dp_conversion_rate agg =
       (if 0 < dp_clicks agg then dp_conversions agg / dp_clicks agg * 100 else 0)"

text \<open>
  The same in the words of the specification: 0 when the denominator is 0.  The two
  readings agree on the records of the data model, whose impressions and clicks are not
  negative.
\<close>

definition device_rates_from_sums :: "DevicePerformance \<Rightarrow> bool" where
  "device_rates_from_sums agg \<longleftrightarrow>
     dp_ctr agg = (if dp_impressions agg = 0 then 0 else dp_clicks agg / dp_impressions agg * 100) \<and>
     dp_conversion_rate agg =
       (if dp_clicks agg = 0 then 0 else dp_conversions agg / dp_clicks agg * 100)"

definition device_counts_ok :: "DevicePerformance \<Rightarrow> bool" where
  "device_counts_ok d \<longleftrightarrow> 0 \<le> dp_impressions d \<and> 0 \<le> dp_clicks d"

text \<open>The arithmetic mean of the pre-computed \<open>ctr\<close> values of a bucket's records.\<close>

definition mean_ctr :: "DevicePerformance list \<Rightarrow> real" where
  "mean_ctr b = sum_list (map dp_ctr b) / real (length b)"

definition ex_device :: "string \<Rightarrow> real \<Rightarrow> real \<Rightarrow> DevicePerformance" where
  "ex_device d i c =
     \<lparr>dp_device = d, dp_impressions = i, dp_clicks = c, dp_conversions = 1, dp_spend = 10,
      dp_revenue = 30, dp_ctr = c / i * 100, dp_conversion_rate = 1 / c * 100,
      dp_percentage_of_traffic = 0\<rparr>"

definition ex_device_cs :: "Campaign list" where
  "ex_device_cs =
     [(campaign_with ''Small'' 10 30)\<lparr>device_performance :=
         Some [ex_device ''Mobile'' 100 10, ex_device ''Desktop'' 300 6]\<rparr>,
      (campaign_with ''Large'' 10 30)\<lparr>device_performance :=
         Some [ex_device ''Mobile'' 900 9]\<rparr>]"

definition ex_no_traffic_cs :: "Campaign list" where
  "ex_no_traffic_cs =
     [(campaign_with ''Idle'' 0 0)\<lparr>device_performance := Some [ex_device ''Mobile'' 0 3]\<rparr>]"

section \<open>The device rollup in double precision\<close>

text \<open>
  A JavaScript number is an IEEE 754 double, and each of \<open>+\<close>, \<open>*\<close> and \<open>/\<close>
  returns the exact result rounded to the nearest double, a tie going to the double whose
  last bit is even.  The rollups above compute on the real numbers, which fits every
  statement that compares a stored value with the same expression of the same operands.
  The sum of the two traffic percentages is an identity across several operations, and
  the rounding of each of them counts; the device rollup is therefore given a second
  time, with every arithmetic operation rounded.

  \<open>round_even\<close> rounds a real to the nearest integer, ties to the even one.  \<open>fl\<close>
  rounds a real to 53 significant bits: for \<open>2^e \<le> |x| < 2^(e+1)\<close> the doubles around
  \<open>x\<close> are the multiples of \<open>2^(e-52)\<close>.  The exponent range of the format is not
  modelled (no overflow to \<open>Infinity\<close> above \<open>2^1024\<close>, no gradual underflow below
  \<open>2^-1022\<close>); whole numbers up to \<open>2^53\<close>, their ratios and the percentages lie far
  inside it.
\<close>

definition round_even :: "real \<Rightarrow> int" where
  "round_even y =
     (let n = \<lfloor>y\<rfloor>; r = y - of_int n
      in if r < 1 / 2 then n
         else if 1 / 2 < r then n + 1
         else if even n then n else n + 1)"

definition fl :: "real \<Rightarrow> real" where
  "fl x =
     (if x = 0 then 0
      else let e = \<lfloor>log 2 \<bar>x\<bar>\<rfloor>
           in of_int (round_even (x / 2 powi (e - 52))) * 2 powi (e - 52))"

text \<open>
  The device rollup again, every \<open>+=\<close>, \<open>/\<close> and \<open>*\<close> followed by the rounding.
  Comparisons with 0 and copies of fields are exact.
\<close>

definition device_acc_double :: "DevicePerformance \<Rightarrow> DevicePerformance \<Rightarrow> DevicePerformance" where
  "device_acc_double agg device =
     agg\<lparr>dp_impressions := fl (dp_impressions agg + dp_impressions device),
         dp_clicks := fl (dp_clicks agg + dp_clicks device),
         dp_conversions := fl (dp_conversions agg + dp_conversions device),
         dp_spend := fl (dp_spend agg + dp_spend device),
         dp_revenue := fl (dp_revenue agg + dp_revenue device)\<rparr>"

definition device_row_double :: "Campaign \<Rightarrow> DevicePerformance \<Rightarrow> CampaignDeviceBreakdown" where
  "device_row_double campaign device =
     \<lparr>cdb_campaign = name campaign, cdb_device = dp_device device,
      cdb_impressions = dp_impressions device, cdb_clicks = dp_clicks device,
      cdb_conversions = dp_conversions device, cdb_spend = dp_spend device,
      cdb_revenue = dp_revenue device, cdb_ctr = dp_ctr device,
      cdb_conversion_rate = dp_conversion_rate device,
      cdb_roas = (if dp_spend device > 0 then fl (dp_revenue device / dp_spend device) else 0)\<rparr>"

definition device_step_double :: "Campaign \<Rightarrow> DevicePerformance \<Rightarrow> AggregatedDeviceData
    \<Rightarrow> AggregatedDeviceData" where
  "device_step_double campaign device st =
     (let st1 = (if dp_device device = ''Mobile''
                 then st\<lparr>mobileData := device_acc_double (mobileData st) device\<rparr>
                 else if dp_device device = ''Desktop''
                 then st\<lparr>desktopData := device_acc_double (desktopData st) device\<rparr>
                 else st)
      in st1\<lparr>campaignDeviceBreakdown :=
               campaignDeviceBreakdown st1 @ [device_row_double campaign device]\<rparr>)"

definition device_campaign_double :: "Campaign \<Rightarrow> AggregatedDeviceData \<Rightarrow> AggregatedDeviceData" where
  "device_campaign_double campaign st =
     (case device_performance campaign of
        None \<Rightarrow> st
      | Some ds \<Rightarrow> fold (device_step_double campaign) ds st)"

definition device_finish_double :: "AggregatedDeviceData \<Rightarrow> AggregatedDeviceData" where
  "device_finish_double st =
     (let mobileAgg = mobileData st;
          desktopAgg = desktopData st;
          totalImpressions = fl (dp_impressions mobileAgg + dp_impressions desktopAgg)
      in \<lparr>mobileData =
            mobileAgg\<lparr>dp_ctr :=
                        (if dp_impressions mobileAgg > 0
                         then fl (fl (dp_clicks mobileAgg / dp_impressions mobileAgg) * 100)
                         else 0),
                      dp_conversion_rate :=
                        (if dp_clicks mobileAgg > 0
                         then fl (fl (dp_conversions mobileAgg / dp_clicks mobileAgg) * 100)
                         else 0),
                      dp_percentage_of_traffic :=
                        (if totalImpressions > 0
                         then fl (fl (dp_impressions mobileAgg / totalImpressions) * 100)
                         else 0)\<rparr>,
          desktopData =
            desktopAgg\<lparr>dp_ctr :=
                         (if dp_impressions desktopAgg > 0
                          then fl (fl (dp_clicks desktopAgg / dp_impressions desktopAgg) * 100)
                          else 0),
                       dp_conversion_rate :=
                         (if dp_clicks desktopAgg > 0
                          then fl (fl (dp_conversions desktopAgg / dp_clicks desktopAgg) * 100)
                          else 0),
                       dp_percentage_of_traffic :=
                         (if totalImpressions > 0
                          then fl (fl (dp_impressions desktopAgg / totalImpressions) * 100)
                          else 0)\<rparr>,
          campaignDeviceBreakdown = campaignDeviceBreakdown st\<rparr>)"

definition deviceData_double :: "MarketingData option \<Rightarrow> AggregatedDeviceData" where
  "deviceData_double marketingData =
     (case marketingData of
        None \<Rightarrow> emptyDeviceData
      | Some md \<Rightarrow>
          (case campaigns md of
             None \<Rightarrow> emptyDeviceData
           | Some cs \<Rightarrow> device_finish_double (fold device_campaign_double cs emptyDeviceData)))"

text \<open>
  An impression count of the data model is a whole number that a double holds exactly: a
  natural number below \<open>2^53\<close>.
\<close>

definition whole_count :: "real \<Rightarrow> bool" where
  "whole_count x \<longleftrightarrow> x \<in> \<nat> \<and> x < 2 ^ 53"

section \<open>Reading the line chart\<close>

text \<open>A series with the given values.\<close>

definition ex_series :: "real list \<Rightarrow> LineChartSeries" where
  "ex_series vs =
     \<lparr>series_name = ''Revenue'',
      series_data = map (\<lambda>v. \<lparr>pt_label = ''w'', pt_value = v\<rparr>) vs,
      series_color = ''#10B981''\<rparr>"

section \<open>Reading the bubble map\<close>

text \<open>
  The radius in the words of the specification: \<open>minRadius = 8\<close>, \<open>sizeSpan = 24\<close>,
  the square root of the value's position in \<open>[min, max]\<close>, and the midpoint radius
  20 when \<open>max = min\<close>.
\<close>

definition bubble_radius :: "real \<Rightarrow> real \<Rightarrow> real \<Rightarrow> real" where
  "bubble_radius mn mx v = (if mx = mn then 20 else 8 + sqrt ((v - mn) / (mx - mn)) * 24)"

definition ex_bubble :: "string \<Rightarrow> real \<Rightarrow> BubbleMapDataPoint" where
  "ex_bubble r v = \<lparr>bm_region = r, bm_country = ''UAE'', bm_value = v, bm_secondaryValue = None\<rparr>"

definition ex_bubbles :: "BubbleMapDataPoint list" where
  "ex_bubbles = [ex_bubble ''Dubai'' 10, ex_bubble ''Sharjah'' 40, ex_bubble ''Ajman'' 90]"

section \<open>Checked division\<close>

text \<open>
  JavaScript's \<open>/\<close> never throws; with the divisor 0 it returns \<open>Infinity\<close> or
  \<open>NaN\<close>, which the reals do not have, while HOL's \<open>x / 0\<close> is 0.  \<open>js_div\<close> makes
  that case visible as \<open>None\<close>.  The functions \<open>..._checked\<close> below are the
  rate computations of the source once more, with every division written as \<open>js_div\<close>:
  a result \<open>Some\<close> says that no division by zero was executed on that path.
\<close>

definition js_div :: "real \<Rightarrow> real \<Rightarrow> real option" where
  "js_div a b = (if b = 0 then None else Some (a / b))"

definition region_merge_checked :: "RegionalPerformance \<Rightarrow> RegionalPerformance
    \<Rightarrow> RegionalPerformance option" where
  "region_merge_checked existing region =
     (let impressions = rp_impressions existing + rp_impressions region;
          clicks = rp_clicks existing + rp_clicks region;
          conversions = rp_conversions existing + rp_conversions region;
          spend' = rp_spend existing + rp_spend region;
          revenue' = rp_revenue existing + rp_revenue region
      in do {
        ctr \<leftarrow> (if impressions > 0
                then map_option (\<lambda>q. q * 100) (js_div clicks impressions) else Some 0);
        conversion_rate \<leftarrow> (if clicks > 0
                then map_option (\<lambda>q. q * 100) (js_div conversions clicks) else Some 0);
        cpc \<leftarrow> (if clicks > 0 then js_div spend' clicks else Some 0);
        cpa \<leftarrow> (if conversions > 0 then js_div spend' conversions else Some 0);
        roas \<leftarrow> (if spend' > 0 then js_div revenue' spend' else Some 0);
        Some (existing\<lparr>rp_impressions := impressions,
                       rp_clicks := clicks,
                       rp_conversions := conversions,
                       rp_spend := spend',
                       rp_revenue := revenue',
                       rp_ctr := ctr,
                       rp_conversion_rate := conversion_rate,
                       rp_cpc := cpc,
                       rp_cpa := cpa,
                       rp_roas := roas\<rparr>)
      })"

definition device_row_checked :: "Campaign \<Rightarrow> DevicePerformance \<Rightarrow> CampaignDeviceBreakdown option" where
  "device_row_checked campaign device =
     do {
       roas \<leftarrow> (if dp_spend device > 0 then js_div (dp_revenue device) (dp_spend device)
               else Some 0);
       Some \<lparr>cdb_campaign = name campaign, cdb_device = dp_device device,
             cdb_impressions = dp_impressions device, cdb_clicks = dp_clicks device,
             cdb_conversions = dp_conversions device, cdb_spend = dp_spend device,
             cdb_revenue = dp_revenue device, cdb_ctr = dp_ctr device,
             cdb_conversion_rate = dp_conversion_rate device, cdb_roas = roas\<rparr>
     }"

definition device_finish_checked :: "AggregatedDeviceData \<Rightarrow> AggregatedDeviceData option" where
  "device_finish_checked st =
     (let mobileAgg = mobileData st;
          desktopAgg = desktopData st;
          totalImpressions = dp_impressions mobileAgg + dp_impressions desktopAgg
      in do {
        m_ctr \<leftarrow> (if dp_impressions mobileAgg > 0
                  then map_option (\<lambda>q. q * 100)
                         (js_div (dp_clicks mobileAgg) (dp_impressions mobileAgg))
                  else Some 0);
        m_cr \<leftarrow> (if dp_clicks mobileAgg > 0
                  then map_option (\<lambda>q. q * 100)
                         (js_div (dp_conversions mobileAgg) (dp_clicks mobileAgg))
                  else Some 0);
        d_ctr \<leftarrow> (if dp_impressions desktopAgg > 0
                  then map_option (\<lambda>q. q * 100)
                         (js_div (dp_clicks desktopAgg) (dp_impressions desktopAgg))
                  else Some 0);
        d_cr \<leftarrow> (if dp_clicks desktopAgg > 0
                  then map_option (\<lambda>q. q * 100)
                         (js_div (dp_conversions desktopAgg) (dp_clicks desktopAgg))
                  else Some 0);
        m_pt \<leftarrow> (if totalImpressions > 0
                  then map_option (\<lambda>q. q * 100)
                         (js_div (dp_impressions mobileAgg) totalImpressions)
                  else Some 0);
        d_pt \<leftarrow> (if totalImpressions > 0
                  then map_option (\<lambda>q. q * 100)
                         (js_div (dp_impressions desktopAgg) totalImpressions)
                  else Some 0);
        Some \<lparr>mobileData =
                mobileAgg\<lparr>dp_ctr := m_ctr, dp_conversion_rate := m_cr,
                            dp_percentage_of_traffic := m_pt\<rparr>,
              desktopData =
                desktopAgg\<lparr>dp_ctr := d_ctr, dp_conversion_rate := d_cr,
                             dp_percentage_of_traffic := d_pt\<rparr>,
              campaignDeviceBreakdown = campaignDeviceBreakdown st\<rparr>
      })"

text \<open>
  The rates computed when the rows are shown: \<open>roas\<close> in the weekly table
  (\<open>row.spend > 0 ? row.revenue / row.spend : 0\<close>) and \<open>mobileROAS\<close>,
  \<open>desktopROAS\<close> of the device view.
\<close>

definition week_row_roas :: "WeeklyPerformance \<Rightarrow> real" where
  "week_row_roas row = (if wp_spend row > 0 then wp_revenue row / wp_spend row else 0)"

definition week_row_roas_checked :: "WeeklyPerformance \<Rightarrow> real option" where
  "week_row_roas_checked row =
     (if wp_spend row > 0 then js_div (wp_revenue row) (wp_spend row) else Some 0)"

definition bucket_roas :: "DevicePerformance \<Rightarrow> real" where
  "bucket_roas agg = (if dp_spend agg > 0 then dp_revenue agg / dp_spend agg else 0)"

definition bucket_roas_checked :: "DevicePerformance \<Rightarrow> real option" where
  "bucket_roas_checked agg =
     (if dp_spend agg > 0 then js_div (dp_revenue agg) (dp_spend agg) else Some 0)"

text \<open>A rate is 0 whenever its denominator is 0.\<close>

definition region_rates_zero_guarded :: "RegionalPerformance \<Rightarrow> bool" where
  "region_rates_zero_guarded x \<longleftrightarrow>
     (rp_impressions x = 0 \<longrightarrow> rp_ctr x = 0) \<and>
     (rp_clicks x = 0 \<longrightarrow> rp_conversion_rate x = 0 \<and> rp_cpc x = 0) \<and>
     (rp_conversions x = 0 \<longrightarrow> rp_cpa x = 0) \<and>
     (rp_spend x = 0 \<longrightarrow> rp_roas x = 0)"

definition device_rates_zero_guarded :: "AggregatedDeviceData \<Rightarrow> bool" where
  "device_rates_zero_guarded r \<longleftrightarrow>
     (dp_impressions (mobileData r) = 0 \<longrightarrow> dp_ctr (mobileData r) = 0) \<and>
     (dp_clicks (mobileData r) = 0 \<longrightarrow> dp_conversion_rate (mobileData r) = 0) \<and>
     (dp_impressions (desktopData r) = 0 \<longrightarrow> dp_ctr (desktopData r) = 0) \<and>
     (dp_clicks (desktopData r) = 0 \<longrightarrow> dp_conversion_rate (desktopData r) = 0) \<and>
     (dp_impressions (mobileData r) + dp_impressions (desktopData r) = 0 \<longrightarrow>
        dp_percentage_of_traffic (mobileData r) = 0 \<and>
        dp_percentage_of_traffic (desktopData r) = 0)"

definition ex_zero_region :: RegionalPerformance where
  "ex_zero_region =
     \<lparr>rp_region = ''Ajman'', rp_country = ''UAE'', rp_impressions = 0, rp_clicks = 0,
      rp_conversions = 0, rp_spend = 0, rp_revenue = 0, rp_ctr = 7, rp_conversion_rate = 7,
      rp_cpc = 7, rp_cpa = 7, rp_roas = 7\<rparr>"

section \<open>The rollups on a store of objects\<close>

text \<open>
  The rollup loop on a store: the records are objects in \<open>h\<close>, addressed by their
  index, and the map holds addresses.  A new key allocates a copy of the record at the
  fresh address \<open>length h\<close>; a known key overwrites the object the map points to.
\<close>

definition rollup_step_h :: "('r \<Rightarrow> 'k) \<Rightarrow> ('r \<Rightarrow> 'r \<Rightarrow> 'r) \<Rightarrow> 'r list \<times> ('k \<times> nat) list \<Rightarrow> nat
    \<Rightarrow> 'r list \<times> ('k \<times> nat) list" where
  "rollup_step_h key merge s a =
     (case s of (h, m) \<Rightarrow>
        (case map_of m (key (h ! a)) of
           None \<Rightarrow> (h @ [h ! a], AList.update (key (h ! a)) (length h) m)
         | Some e \<Rightarrow> (h[e := merge (h ! e) (h ! a)], m)))"

text \<open>
  What holds of the store and the map while the loop runs over input objects, all of
  which lie below \<open>n\<close>: the first \<open>n\<close> objects are the input \<open>h0\<close>, and the map
  points to pairwise different objects allocated above them.
\<close>

definition store_inv :: "'r list \<Rightarrow> 'r list \<times> ('k \<times> nat) list \<Rightarrow> bool" where
  "store_inv h0 s \<longleftrightarrow>
     (case s of (h, m) \<Rightarrow>
        length h0 \<le> length h \<and> take (length h0) h = h0 \<and>
        (\<forall>e \<in> set (map snd m). length h0 \<le> e \<and> e < length h) \<and>
        distinct (map snd m))"

text \<open>The map with every address replaced by the object it points to.\<close>

definition deref_map :: "'r list \<times> ('k \<times> nat) list \<Rightarrow> ('k \<times> 'r) list" where
  "deref_map s = (case s of (h, m) \<Rightarrow> map (\<lambda>(k, e). (k, h ! e)) m)"

text \<open>
  A campaign as the loops see it on the store: its scalar fields (\<open>name\<close>,
  \<open>spend\<close>, \<open>revenue\<close>, which no statement of the source assigns to) and the array of
  the addresses of its breakdown records, or \<open>None\<close> when the breakdown is missing.
\<close>

type_synonym campaign_ref = "Campaign \<times> nat list option"

text \<open>Every reference points to an object of the input store.\<close>

definition refs_valid :: "'r list \<Rightarrow> campaign_ref list \<Rightarrow> bool" where
  "refs_valid h0 crs \<longleftrightarrow>
     (\<forall>cr \<in> set crs. \<forall>as. snd cr = Some as \<longrightarrow> (\<forall>a \<in> set as. a < length h0))"

definition all_refs :: "campaign_ref list \<Rightarrow> nat list" where
  "all_refs crs = concat (map (\<lambda>cr. case snd cr of None \<Rightarrow> [] | Some as \<Rightarrow> as) crs)"

text \<open>The campaigns as values, with the breakdown read from the input store.\<close>

definition weekly_view :: "WeeklyPerformance list \<Rightarrow> campaign_ref \<Rightarrow> Campaign" where
  "weekly_view h0 cr = (fst cr)\<lparr>weekly_performance := map_option (map (\<lambda>a. h0 ! a)) (snd cr)\<rparr>"

definition regional_view :: "RegionalPerformance list \<Rightarrow> campaign_ref \<Rightarrow> Campaign" where
  "regional_view h0 cr = (fst cr)\<lparr>regional_performance := map_option (map (\<lambda>a. h0 ! a)) (snd cr)\<rparr>"

definition device_view :: "DevicePerformance list \<Rightarrow> campaign_ref \<Rightarrow> Campaign" where
  "device_view h0 cr = (fst cr)\<lparr>device_performance := map_option (map (\<lambda>a. h0 ! a)) (snd cr)\<rparr>"

text \<open>
  \<open>weekMap.set(key, { ...week })\<close> allocates the copy; the five \<open>+=\<close> write to the
  object \<open>existing\<close> that the map holds.  Each \<open>+=\<close> reads one field of \<open>week\<close> and
  writes the same field of \<open>existing\<close>, so the five of them are \<open>week_merge\<close> even if
  the two were the same object.
\<close>

definition week_step_h :: "WeeklyPerformance list \<times> (string \<times> nat) list \<Rightarrow> nat
    \<Rightarrow> WeeklyPerformance list \<times> (string \<times> nat) list" where
  "week_step_h s week =
     (case s of (h, weekMap) \<Rightarrow>
        (let key = wp_week_start (h ! week)
         in case map_of weekMap key of
              None \<Rightarrow> (h @ [h ! week], AList.update key (length h) weekMap)
            | Some existing \<Rightarrow> (h[existing := week_merge (h ! existing) (h ! week)], weekMap)))"

definition week_campaign_h :: "campaign_ref \<Rightarrow> WeeklyPerformance list \<times> (string \<times> nat) list
    \<Rightarrow> WeeklyPerformance list \<times> (string \<times> nat) list" where
  "week_campaign_h campaign s =
     (case snd campaign of
        None \<Rightarrow> s
      | Some ws \<Rightarrow> fold (\<lambda>week s. week_step_h s week) ws s)"

text \<open>The result is the final store and the sorted array of the addresses in the map.\<close>

definition weeklyData_h :: "(string \<Rightarrow> int) \<Rightarrow> WeeklyPerformance list \<Rightarrow> campaign_ref list
    \<Rightarrow> WeeklyPerformance list \<times> nat list" where
  "weeklyData_h getTime h0 crs =
     (case fold week_campaign_h crs (h0, []) of
        (h, weekMap) \<Rightarrow> (h, sort_key (\<lambda>e. getTime (wp_week_start (h ! e))) (map snd weekMap)))"

definition region_step_h :: "RegionalPerformance list \<times> (string \<times> nat) list \<Rightarrow> nat
    \<Rightarrow> RegionalPerformance list \<times> (string \<times> nat) list" where
  "region_step_h s region =
     (case s of (h, regionMap) \<Rightarrow>
        (let key = rp_region (h ! region)
         in case map_of regionMap key of
              None \<Rightarrow> (h @ [h ! region], AList.update key (length h) regionMap)
            | Some existing \<Rightarrow>
                (h[existing := region_merge (h ! existing) (h ! region)], regionMap)))"

definition region_campaign_h :: "campaign_ref \<Rightarrow> RegionalPerformance list \<times> (string \<times> nat) list
    \<Rightarrow> RegionalPerformance list \<times> (string \<times> nat) list" where
  "region_campaign_h campaign s =
     (case snd campaign of
        None \<Rightarrow> s
      | Some rs \<Rightarrow> fold (\<lambda>region s. region_step_h s region) rs s)"

definition regionalData_h :: "RegionalPerformance list \<Rightarrow> campaign_ref list
    \<Rightarrow> RegionalPerformance list \<times> nat list" where
  "regionalData_h h0 crs =
     (case fold region_campaign_h crs (h0, []) of
        (h, regionMap) \<Rightarrow> (h, sort_key (\<lambda>e. - rp_revenue (h ! e)) (map snd regionMap)))"

text \<open>
  The device rollup on the store.  \<open>mobileAgg\<close> and \<open>desktopAgg\<close> are two objects the
  function creates itself; every \<open>+=\<close> of the loop and every assignment after it has
  one of the two as its target.  The rows pushed to \<open>campaignBreakdown\<close> are new objects
  that nothing writes to afterwards: they stay values.
\<close>

definition device_step_h :: "nat \<Rightarrow> nat \<Rightarrow> Campaign \<Rightarrow> nat
    \<Rightarrow> DevicePerformance list \<times> CampaignDeviceBreakdown list
    \<Rightarrow> DevicePerformance list \<times> CampaignDeviceBreakdown list" where
  "device_step_h mobileAgg desktopAgg campaign device s =
     (case s of (h, campaignBreakdown) \<Rightarrow>
        (let h1 = (if dp_device (h ! device) = ''Mobile''
                   then h[mobileAgg := device_acc (h ! mobileAgg) (h ! device)]
                   else if dp_device (h ! device) = ''Desktop''
                   then h[desktopAgg := device_acc (h ! desktopAgg) (h ! device)]
                   else h)
         in (h1, campaignBreakdown @ [device_row campaign (h1 ! device)])))"

definition device_campaign_h :: "nat \<Rightarrow> nat \<Rightarrow> campaign_ref
    \<Rightarrow> DevicePerformance list \<times> CampaignDeviceBreakdown list
    \<Rightarrow> DevicePerformance list \<times> CampaignDeviceBreakdown list" where
  "device_campaign_h mobileAgg desktopAgg campaign s =
     (case snd campaign of
        None \<Rightarrow> s
      | Some ds \<Rightarrow> fold (device_step_h mobileAgg desktopAgg (fst campaign)) ds s)"

text \<open>
  The result is the final store, the addresses of the two buckets and the rows.
\<close>

definition deviceData_h :: "DevicePerformance list \<Rightarrow> campaign_ref list
    \<Rightarrow> DevicePerformance list \<times> nat \<times> nat \<times> CampaignDeviceBreakdown list" where
  "deviceData_h h0 crs =
     (let mobileAgg = length h0;
          desktopAgg = Suc (length h0);
          h1 = h0 @ [emptyAgg ''Mobile'', emptyAgg ''Desktop'']
      in case fold (device_campaign_h mobileAgg desktopAgg) crs (h1, []) of
           (h, campaignBreakdown) \<Rightarrow>
             (let fin = device_finish \<lparr>mobileData = h ! mobileAgg, desktopData = h ! desktopAgg,
                                       campaignDeviceBreakdown = campaignBreakdown\<rparr>
              in (h[mobileAgg := mobileData fin, desktopAgg := desktopData fin],
                  mobileAgg, desktopAgg, campaignBreakdown)))"

text \<open>The loop state of the device rollup read off the store.\<close>

definition device_abs :: "nat \<Rightarrow> DevicePerformance list \<times> CampaignDeviceBreakdown list
    \<Rightarrow> AggregatedDeviceData" where
  "device_abs n s =
     (case s of (h, rows) \<Rightarrow>
        \<lparr>mobileData = h ! n, desktopData = h ! Suc n, campaignDeviceBreakdown = rows\<rparr>)"

definition device_inv :: "DevicePerformance list
    \<Rightarrow> DevicePerformance list \<times> CampaignDeviceBreakdown list \<Rightarrow> bool" where
  "device_inv h0 s \<longleftrightarrow>
     (case s of (h, rows) \<Rightarrow> length h = length h0 + 2 \<and> take (length h0) h = h0)"

text \<open>
  The demographic rollup on the store.  Its accumulators are local variables, two new
  dictionaries and two new arrays of new objects; no statement assigns to a field of a
  slice or of a campaign.  The store is read and handed on as it is.
\<close>

definition demographic_view :: "DemographicBreakdown list \<Rightarrow> campaign_ref \<Rightarrow> Campaign" where
  "demographic_view h0 cr =
     (fst cr)\<lparr>demographic_breakdown := map_option (map (\<lambda>a. h0 ! a)) (snd cr)\<rparr>"

fun demo_slices_h :: "Campaign \<Rightarrow> nat list
    \<Rightarrow> DemographicBreakdown list \<times> AggregatedDemographicData
    \<Rightarrow> (DemographicBreakdown list \<times> AggregatedDemographicData) option" where
  "demo_slices_h campaign [] s = Some s"
| "demo_slices_h campaign (demo # ds) s =
     (case demo_step campaign (fst s ! demo) (snd s) of
        None \<Rightarrow> None
      | Some st' \<Rightarrow> demo_slices_h campaign ds (fst s, st'))"

fun demo_campaigns_h :: "campaign_ref list
    \<Rightarrow> DemographicBreakdown list \<times> AggregatedDemographicData
    \<Rightarrow> (DemographicBreakdown list \<times> AggregatedDemographicData) option" where
  "demo_campaigns_h [] s = Some s"
| "demo_campaigns_h (campaign # cs) s =
     (case snd campaign of
        None \<Rightarrow> demo_campaigns_h cs s
      | Some ds \<Rightarrow>
          (case demo_slices_h (fst campaign) ds s of
             None \<Rightarrow> None
           | Some s' \<Rightarrow> demo_campaigns_h cs s'))"

definition demographicData_h :: "DemographicBreakdown list \<Rightarrow> campaign_ref list
    \<Rightarrow> (DemographicBreakdown list \<times> AggregatedDemographicData) option" where
  "demographicData_h h0 crs = demo_campaigns_h crs (h0, emptyDemographicData)"

definition ex_wh :: "WeeklyPerformance list" where
  "ex_wh = [ex_week ''2024-01-08'' ''2024-01-14'' 5, ex_week ''2024-01-01'' ''2024-01-07'' 10,
            ex_week ''2024-01-01'' ''2024-01-07'' 20]"

definition ex_wcs :: "campaign_ref list" where
  "ex_wcs = [(campaign_with ''A'' 20 80, Some [0, 1]), (campaign_with ''B'' 10 40, Some [2])]"

definition ex_rh :: "RegionalPerformance list" where
  "ex_rh = [ex_dubai_a, ex_dubai_b]"

definition ex_rcs :: "campaign_ref list" where
  "ex_rcs = [(campaign_with ''A'' 100 200, Some [0]), (campaign_with ''B'' 50 50, Some [1])]"

definition ex_dh :: "DevicePerformance list" where
  "ex_dh = [ex_device ''Mobile'' 100 10, ex_device ''Desktop'' 300 6, ex_device ''Mobile'' 900 9]"

definition ex_dcs :: "campaign_ref list" where
  "ex_dcs = [(campaign_with ''Small'' 10 30, Some [0, 1]), (campaign_with ''Large'' 10 30, Some [2])]"

section \<open>Properties\<close>

subsection \<open>The rollup loop\<close>

lemma rollup_simps [simp]:
  "rollup key merge [] m = m"
  "rollup key merge (r # rs) m = rollup key merge rs (rollup_step key merge m r)"
  by (simp_all add: rollup_def)

lemma map_of_rollup_step:
  "map_of (rollup_step key merge m r) k =
     (if key r = k then Some (case map_of m k of None \<Rightarrow> r | Some e \<Rightarrow> merge e r)
      else map_of m k)"
  by (auto simp: rollup_step_def update_conv' split: option.splits)

lemma rollup_lookup:
  "map_of (rollup key merge rs m) k =
     (case map_of m k of
        Some e \<Rightarrow> Some (foldl merge e (filter (\<lambda>r. key r = k) rs))
      | None \<Rightarrow> merged merge (filter (\<lambda>r. key r = k) rs))"
proof (induction rs arbitrary: m)
  case Nil
  show ?case by (simp add: merged_def split: option.splits)
next
  case (Cons r rs)
  show ?case
    by (simp add: Cons.IH map_of_rollup_step merged_def split: option.splits)
qed

lemma keys_rollup_step:
  "map fst (rollup_step key merge m r) =
     (if key r \<in> set (map fst m) then map fst m else map fst m @ [key r])"
  by (simp add: rollup_step_def update_keys split: option.splits)

lemma set_first_keys [simp]: "set (first_keys xs) = set xs"
  by (induction xs rule: first_keys.induct) auto

lemma distinct_first_keys [simp]: "distinct (first_keys xs)"
  by (induction xs rule: first_keys.induct) auto

lemma rollup_keys:
  "map fst (rollup key merge rs m) =
     map fst m @ first_keys (filter (\<lambda>k. k \<notin> set (map fst m)) (map key rs))"
proof (induction rs arbitrary: m)
  case Nil
  show ?case by simp
next
  case (Cons r rs)
  show ?case
  proof (cases "key r \<in> set (map fst m)")
    case True
    then show ?thesis by (simp add: Cons.IH keys_rollup_step)
  next
    case False
    have "filter (\<lambda>k. k \<noteq> key r \<and> k \<notin> fst ` set m) (map key rs)
          = removeAll (key r) (filter (\<lambda>k. k \<notin> fst ` set m) (map key rs))"
      by (induction rs) auto
    moreover have "(\<lambda>k. k \<noteq> key r \<and> k \<notin> fst ` set m) = (\<lambda>k. k \<notin> fst ` set m \<and> k \<noteq> key r)"
      by auto
    ultimately show ?thesis using False by (simp add: Cons.IH keys_rollup_step)
  qed
qed

lemma map_snd_distinct_keys:
  "distinct (map fst al) \<Longrightarrow> map snd al = map (\<lambda>k. the (map_of al k)) (map fst al)"
proof (induction al)
  case Nil
  show ?case by simp
next
  case (Cons p al)
  then have d: "distinct (map fst al)" and n: "fst p \<notin> fst ` set al" by auto
  have "map (\<lambda>k. the (map_of (p # al) k)) (map fst al) = map (\<lambda>k. the (map_of al k)) (map fst al)"
    using n by (intro map_cong) (auto simp: image_iff)
  with Cons.IH [OF d] show ?case by (cases p) simp
qed

lemma rollup_values:
  "map snd (rollup key merge rs []) =
     map (\<lambda>k. the (merged merge (filter (\<lambda>r. key r = k) rs))) (first_keys (map key rs))"
proof -
  have k: "map fst (rollup key merge rs []) = first_keys (map key rs)"
    by (simp add: rollup_keys)
  then have "distinct (map fst (rollup key merge rs []))" by simp
  from map_snd_distinct_keys [OF this] show ?thesis
    by (simp add: k rollup_lookup)
qed

subsection \<open>Regional rollup\<close>

lemma region_step_rollup: "region_step m r = rollup_step rp_region region_merge m r"
  by (simp add: region_step_def rollup_step_def Let_def)

lemma rollup_append: "rollup key merge (xs @ ys) m = rollup key merge ys (rollup key merge xs m)"
  by (simp add: rollup_def)

lemma fold_region_campaign:
  "fold region_campaign cs m = rollup rp_region region_merge (all_regional cs) m"
proof (induction cs arbitrary: m)
  case Nil
  show ?case by (simp add: all_regional_def)
next
  case (Cons c cs)
  have "region_campaign c m =
        rollup rp_region region_merge (case regional_performance c of None \<Rightarrow> [] | Some rs \<Rightarrow> rs) m"
    by (simp add: region_campaign_def rollup_def region_step_rollup split: option.splits)
  then show ?case using Cons.IH by (simp add: all_regional_def rollup_append)
qed

lemma regionMap_of_rollup: "regionMap_of cs = rollup rp_region region_merge (all_regional cs) []"
  by (simp add: regionMap_of_def fold_region_campaign)

lemma region_merge_sel [simp]:
  "rp_region (region_merge e r) = rp_region e"
  "rp_country (region_merge e r) = rp_country e"
  "rp_impressions (region_merge e r) = rp_impressions e + rp_impressions r"
  "rp_clicks (region_merge e r) = rp_clicks e + rp_clicks r"
  "rp_conversions (region_merge e r) = rp_conversions e + rp_conversions r"
  "rp_spend (region_merge e r) = rp_spend e + rp_spend r"
  "rp_revenue (region_merge e r) = rp_revenue e + rp_revenue r"
  by (simp_all add: region_merge_def Let_def)

lemma region_merge_rates: "rates_recomputed (region_merge e r)"
  by (simp add: rates_recomputed_def) (simp add: region_merge_def Let_def)

lemma rates_recomputed_nonneg:
  "rates_recomputed e \<Longrightarrow> 0 \<le> rp_impressions e \<Longrightarrow> 0 \<le> rp_clicks e \<Longrightarrow>
   0 \<le> rp_conversions e \<Longrightarrow> 0 \<le> rp_spend e \<Longrightarrow> rates_from_sums e"
  by (simp add: rates_recomputed_def rates_from_sums_def)

lemma foldl_region_merge_sel [simp]:
  "rp_region (foldl region_merge e rs) = rp_region e"
  "rp_country (foldl region_merge e rs) = rp_country e"
  "rp_impressions (foldl region_merge e rs) = rp_impressions e + sum_list (map rp_impressions rs)"
  "rp_clicks (foldl region_merge e rs) = rp_clicks e + sum_list (map rp_clicks rs)"
  "rp_conversions (foldl region_merge e rs) = rp_conversions e + sum_list (map rp_conversions rs)"
  "rp_spend (foldl region_merge e rs) = rp_spend e + sum_list (map rp_spend rs)"
  "rp_revenue (foldl region_merge e rs) = rp_revenue e + sum_list (map rp_revenue rs)"
  by (induction rs arbitrary: e, simp_all)

lemma foldl_region_merge_rates:
  "rs \<noteq> [] \<Longrightarrow> rates_recomputed (foldl region_merge e rs)"
  by (cases rs rule: rev_cases) (simp_all add: region_merge_rates)

lemma set_regionalData:
  "campaigns md = Some cs \<Longrightarrow> set (regionalData (Some md)) = snd ` set (regionMap_of cs)"
  by (simp add: regionalData_def)

lemma regionMap_entry:
  assumes "(k, x) \<in> set (regionMap_of cs)"
  shows "merged region_merge (region_group k cs) = Some x"
proof -
  have "distinct (map fst (regionMap_of cs))"
    by (simp add: regionMap_of_rollup rollup_keys)
  with assms have "map_of (regionMap_of cs) k = Some x" by simp
  then show ?thesis
    by (simp add: regionMap_of_rollup rollup_lookup region_group_def)
qed

lemma merged_region_props:
  assumes "merged region_merge g = Some x" and "\<forall>r \<in> set g. rp_region r = k"
  shows "g \<noteq> [] \<and> rp_region x = k \<and> region_sums x g \<and> (length g = 1 \<longrightarrow> x = hd g) \<and>
         (1 < length g \<longrightarrow> rates_recomputed x)"
proof (cases g)
  case Nil
  with assms show ?thesis by (simp add: merged_def)
next
  case (Cons f rest)
  with assms have x: "x = foldl region_merge f rest" by (simp add: merged_def)
  show ?thesis using assms(2)
    by (auto simp: x Cons region_sums_def foldl_region_merge_rates)
qed

subsection \<open>Weekly rollup\<close>

lemma week_step_rollup: "week_step m w = rollup_step wp_week_start week_merge m w"
  by (simp add: week_step_def rollup_step_def Let_def)

lemma fold_week_campaign:
  "fold week_campaign cs m = rollup wp_week_start week_merge (all_weekly cs) m"
proof (induction cs arbitrary: m)
  case Nil
  show ?case by (simp add: all_weekly_def)
next
  case (Cons c cs)
  have "week_campaign c m =
        rollup wp_week_start week_merge (case weekly_performance c of None \<Rightarrow> [] | Some ws \<Rightarrow> ws) m"
    by (simp add: week_campaign_def rollup_def week_step_rollup split: option.splits)
  then show ?case using Cons.IH by (simp add: all_weekly_def rollup_append)
qed

lemma weekMap_of_rollup: "weekMap_of cs = rollup wp_week_start week_merge (all_weekly cs) []"
  by (simp add: weekMap_of_def fold_week_campaign)

lemma foldl_week_merge:
  "foldl week_merge f rest =
     f\<lparr>wp_impressions := wp_impressions f + sum_list (map wp_impressions rest),
       wp_clicks := wp_clicks f + sum_list (map wp_clicks rest),
       wp_conversions := wp_conversions f + sum_list (map wp_conversions rest),
       wp_spend := wp_spend f + sum_list (map wp_spend rest),
       wp_revenue := wp_revenue f + sum_list (map wp_revenue rest)\<rparr>"
  by (induction rest arbitrary: f) (simp_all add: week_merge_def add.assoc)

lemma merged_week: "g \<noteq> [] \<Longrightarrow> merged week_merge g = Some (week_entry g)"
  by (cases g) (simp_all add: merged_def foldl_week_merge week_entry_def)

lemma weekMap_values:
  "map snd (weekMap_of cs) =
     map (\<lambda>k. week_entry (week_group k cs)) (first_keys (map wp_week_start (all_weekly cs)))"
proof -
  have "\<And>k. k \<in> set (map wp_week_start (all_weekly cs)) \<Longrightarrow> week_group k cs \<noteq> []"
    by (auto simp: week_group_def filter_empty_conv)
  then show ?thesis
    unfolding weekMap_of_rollup rollup_values week_group_def [symmetric]
    by (intro map_cong) (simp_all add: merged_week)
qed

lemma week_entry_key: "g \<noteq> [] \<Longrightarrow> wp_week_start (week_entry g) = wp_week_start (hd g)"
  by (simp add: week_entry_def)

lemma week_group_hd:
  "k \<in> set (map wp_week_start (all_weekly cs)) \<Longrightarrow>
     week_group k cs \<noteq> [] \<and> wp_week_start (hd (week_group k cs)) = k"
proof -
  assume "k \<in> set (map wp_week_start (all_weekly cs))"
  then have ne: "week_group k cs \<noteq> []"
    by (auto simp: week_group_def filter_empty_conv)
  then have "hd (week_group k cs) \<in> set (week_group k cs)" by simp
  then show ?thesis using ne by (simp add: week_group_def)
qed

lemma weekMap_keys:
  "map wp_week_start (map snd (weekMap_of cs)) = first_keys (map wp_week_start (all_weekly cs))"
proof -
  have "map (\<lambda>k. wp_week_start (week_entry (week_group k cs)))
          (first_keys (map wp_week_start (all_weekly cs)))
        = map (\<lambda>k. k) (first_keys (map wp_week_start (all_weekly cs)))"
    by (intro map_cong) (simp_all add: week_group_hd week_entry_key)
  then show ?thesis by (simp add: weekMap_values comp_def)
qed

lemma weeklyData_Some:
  "campaigns md = Some cs \<Longrightarrow>
     weeklyData getTime (Some md) = sort_key (\<lambda>w. getTime (wp_week_start w)) (map snd (weekMap_of cs))"
  by (simp add: weeklyData_def)

lemma weekly_entries:
  assumes "w \<in> set (map snd (weekMap_of cs))"
  shows "week_group (wp_week_start w) cs \<noteq> [] \<and> w = week_entry (week_group (wp_week_start w) cs)"
proof -
  from assms obtain k where k: "k \<in> set (map wp_week_start (all_weekly cs))"
    and w: "w = week_entry (week_group k cs)"
    by (auto simp: weekMap_values)
  from week_group_hd [OF k] have "wp_week_start w = k" by (simp add: w week_entry_key)
  with week_group_hd [OF k] w show ?thesis by simp
qed

lemma weekly_stable:
  "map wp_week_start (filter (\<lambda>w. getTime (wp_week_start w) = t)
       (sort_key (\<lambda>w. getTime (wp_week_start w)) (map snd (weekMap_of cs))))
   = filter (\<lambda>k. getTime k = t) (first_keys (map wp_week_start (all_weekly cs)))"
proof -
  have "filter (\<lambda>w. getTime (wp_week_start w) = t)
          (sort_key (\<lambda>w. getTime (wp_week_start w)) (map snd (weekMap_of cs)))
        = filter (\<lambda>w. getTime (wp_week_start w) = t) (map snd (weekMap_of cs))"
    by (rule sort_key_stable)
  moreover have "map wp_week_start (filter (\<lambda>w. getTime (wp_week_start w) = t) (map snd (weekMap_of cs)))
        = filter (\<lambda>k. getTime k = t) (map wp_week_start (map snd (weekMap_of cs)))"
    by (simp add: filter_map comp_def)
  ultimately show ?thesis by (simp only: weekMap_keys)
qed

lemma weekly_sorted:
  "sorted (map (\<lambda>w. getTime (wp_week_start w))
     (sort_key (\<lambda>w. getTime (wp_week_start w)) (map snd (weekMap_of cs))))"
  by (rule sorted_sort_key)

lemma weekly_keys_sorted:
  "distinct (map wp_week_start (sort_key f (map snd (weekMap_of cs)))) \<and>
   set (map wp_week_start (sort_key f (map snd (weekMap_of cs)))) = wp_week_start ` set (all_weekly cs)"
proof -
  have d: "distinct (map wp_week_start (sort_key f (map snd (weekMap_of cs))))
        = distinct (map wp_week_start (map snd (weekMap_of cs)))"
    by (simp only: distinct_map distinct_sort set_sort)
  have "set (map wp_week_start (sort_key f (map snd (weekMap_of cs))))
        = set (map wp_week_start (map snd (weekMap_of cs)))"
    by (simp only: set_map set_sort)
  then show ?thesis using d by (simp only: weekMap_keys) simp
qed

subsection \<open>Claims on the regional and the weekly rollup\<close>

lemma regional_keys:
  "campaigns md = Some cs \<Longrightarrow>
     distinct (map rp_region (regionalData (Some md))) \<and>
     set (map rp_region (regionalData (Some md))) = rp_region ` set (all_regional cs)"
proof -
  assume c: "campaigns md = Some cs"
  let ?vals = "map snd (regionMap_of cs)"
  have "\<And>k. k \<in> set (map rp_region (all_regional cs)) \<Longrightarrow>
          rp_region (the (merged region_merge (filter (\<lambda>r. rp_region r = k) (all_regional cs)))) = k"
  proof -
    fix k assume "k \<in> set (map rp_region (all_regional cs))"
    then have ne: "filter (\<lambda>r. rp_region r = k) (all_regional cs) \<noteq> []"
      by (auto simp: filter_empty_conv)
    then obtain f rest where fr: "filter (\<lambda>r. rp_region r = k) (all_regional cs) = f # rest"
      by (cases "filter (\<lambda>r. rp_region r = k) (all_regional cs)") auto
    then have "f \<in> set (filter (\<lambda>r. rp_region r = k) (all_regional cs))" by simp
    then have "rp_region f = k" by simp
    then show "rp_region (the (merged region_merge (filter (\<lambda>r. rp_region r = k) (all_regional cs)))) = k"
      by (simp add: fr merged_def)
  qed
  then have "map (\<lambda>k. rp_region (the (merged region_merge (filter (\<lambda>r. rp_region r = k) (all_regional cs)))))
          (first_keys (map rp_region (all_regional cs)))
        = map (\<lambda>k. k) (first_keys (map rp_region (all_regional cs)))"
    by (intro map_cong) simp_all
  then have keys: "map rp_region ?vals = first_keys (map rp_region (all_regional cs))"
    by (simp add: regionMap_of_rollup rollup_values comp_def)
  have "distinct (map rp_region (sort_key (\<lambda>r. - rp_revenue r) ?vals)) = distinct (map rp_region ?vals)"
    by (simp only: distinct_map distinct_sort set_sort)
  moreover have "set (map rp_region (sort_key (\<lambda>r. - rp_revenue r) ?vals)) = set (map rp_region ?vals)"
    by (simp only: set_map set_sort)
  ultimately show ?thesis using c
    by (simp only: regionalData_def option.case keys) simp
qed

lemma regional_entries:
  assumes "campaigns md = Some cs" and "x \<in> set (regionalData (Some md))"
  shows "region_group (rp_region x) cs \<noteq> [] \<and> region_sums x (region_group (rp_region x) cs) \<and>
         (length (region_group (rp_region x) cs) = 1 \<longrightarrow> x = hd (region_group (rp_region x) cs)) \<and>
         (1 < length (region_group (rp_region x) cs) \<longrightarrow> rates_recomputed x)"
proof -
  from assms obtain k where "(k, x) \<in> set (regionMap_of cs)"
    by (auto simp: set_regionalData)
  then have m: "merged region_merge (region_group k cs) = Some x" by (rule regionMap_entry)
  have "\<forall>r \<in> set (region_group k cs). rp_region r = k" by (simp add: region_group_def)
  from merged_region_props [OF m this] have p: "region_group k cs \<noteq> [] \<and> rp_region x = k \<and>
      region_sums x (region_group k cs) \<and>
      (length (region_group k cs) = 1 \<longrightarrow> x = hd (region_group k cs)) \<and>
      (1 < length (region_group k cs) \<longrightarrow> rates_recomputed x)" .
  then have "rp_region x = k" by simp
  with p show ?thesis by blast
qed

lemma region_step_merge:
  "map_of m (rp_region r) = Some e \<Longrightarrow>
     map_of (region_step m r) (rp_region r) = Some (region_merge e r) \<and>
     (\<forall>k. k \<noteq> rp_region r \<longrightarrow> map_of (region_step m r) k = map_of m k)"
  by (simp add: region_step_rollup map_of_rollup_step)

lemma regional_example:
  "map rp_roas (regionalData (Some \<lparr>campaigns = Some ex_regional_cs\<rparr>)) = [250 / 150]"
  by (simp add: regionalData_def regionMap_of_def region_campaign_def region_step_def
      region_merge_def ex_regional_cs_def ex_dubai_a_def ex_dubai_b_def campaign_with_def Let_def)

lemma region_merge_counts_ok:
  "region_counts_ok e \<Longrightarrow> region_counts_ok r \<Longrightarrow> region_counts_ok (region_merge e r)"
  by (simp add: region_counts_ok_def region_merge_def Let_def)

lemma region_merge_from_sums:
  assumes "region_counts_ok e" and "region_counts_ok r"
  shows "rates_from_sums (region_merge e r)"
proof -
  from region_merge_counts_ok [OF assms] have "region_counts_ok (region_merge e r)" .
  then show ?thesis
    using region_merge_rates [of e r] by (simp add: region_counts_ok_def rates_recomputed_nonneg)
qed

lemma sum_list_map_nonneg:
  fixes f :: "'a \<Rightarrow> real"
  shows "(\<And>x. x \<in> set xs \<Longrightarrow> 0 \<le> f x) \<Longrightarrow> 0 \<le> sum_list (map f xs)"
  by (induction xs) simp_all

lemma region_sums_counts_ok:
  assumes "region_sums x g" and "\<And>r. r \<in> set g \<Longrightarrow> region_counts_ok r"
  shows "region_counts_ok x"
proof -
  have "0 \<le> sum_list (map rp_impressions g)" "0 \<le> sum_list (map rp_clicks g)"
       "0 \<le> sum_list (map rp_conversions g)" "0 \<le> sum_list (map rp_spend g)"
    using assms(2) by (simp_all add: sum_list_map_nonneg region_counts_ok_def)
  with assms(1) show ?thesis by (simp add: region_counts_ok_def region_sums_def)
qed

lemma regional_entries_from_sums:
  assumes "campaigns md = Some cs" and "x \<in> set (regionalData (Some md))"
    and "1 < length (region_group (rp_region x) cs)"
    and "\<And>r. r \<in> set (region_group (rp_region x) cs) \<Longrightarrow> region_counts_ok r"
  shows "rates_from_sums x"
proof -
  from regional_entries [OF assms(1,2)] assms(3)
  have s: "region_sums x (region_group (rp_region x) cs)" and r: "rates_recomputed x" by simp_all
  from s assms(4) have "region_counts_ok x" by (rule region_sums_counts_ok)
  with r show ?thesis by (simp add: region_counts_ok_def rates_recomputed_nonneg)
qed

text \<open>
  Claim C1.  The regional rollup groups the \<open>regional_performance\<close> records of all
  campaigns by their exact \<open>region\<close> string and keeps one entry per region.  A merge
  step (key already present) stores the merged entry, whose five raw fields are the sums
  of the stored entry and the record, and whose \<open>ctr\<close>, \<open>conversion_rate\<close>,
  \<open>cpc\<close>, \<open>cpa\<close> and \<open>roas\<close> are the ratios recomputed from these running sums,
  each 0 when its denominator is 0, never an average of the stored rates.  In the result
  every entry carries the sums over all records of its region, and an entry that was
  merged at least once carries the rates recomputed from these sums (a region seen once
  keeps the record as it came).  Raw counts and spend are not negative, as in the data
  model.  Merging (spend 100, revenue 200) and (spend 50, revenue 50) gives roas 250/150,
  not the average 1.5 of the two stored rates.
\<close>

theorem regional_rollup_recomputes_rates:
  "(map_of m (rp_region r) = Some e \<longrightarrow>
      map_of (region_step m r) (rp_region r) = Some (region_merge e r) \<and>
      region_sums (region_merge e r) [e, r] \<and>
      (region_counts_ok e \<and> region_counts_ok r \<longrightarrow> rates_from_sums (region_merge e r))) \<and>
   (campaigns md = Some cs \<longrightarrow>
      distinct (map rp_region (regionalData (Some md))) \<and>
      set (map rp_region (regionalData (Some md))) = rp_region ` set (all_regional cs) \<and>
      (\<forall>x \<in> set (regionalData (Some md)).
         region_group (rp_region x) cs \<noteq> [] \<and>
         region_sums x (region_group (rp_region x) cs) \<and>
         (length (region_group (rp_region x) cs) = 1 \<longrightarrow> x = hd (region_group (rp_region x) cs)) \<and>
         (1 < length (region_group (rp_region x) cs) \<and>
          (\<forall>r \<in> set (region_group (rp_region x) cs). region_counts_ok r) \<longrightarrow>
            rates_from_sums x))) \<and>
   map rp_roas (regionalData (Some \<lparr>campaigns = Some ex_regional_cs\<rparr>)) = [250 / 150] \<and>
   (250 / 150 :: real) \<noteq> (2 + 1) / 2"
proof (intro conjI impI ballI)
  assume "map_of m (rp_region r) = Some e"
  then show "map_of (region_step m r) (rp_region r) = Some (region_merge e r)"
    by (simp add: region_step_merge)
next
  show "region_sums (region_merge e r) [e, r]" by (simp add: region_sums_def)
next
  assume "region_counts_ok e \<and> region_counts_ok r"
  then show "rates_from_sums (region_merge e r)" by (simp add: region_merge_from_sums)
next
  assume "campaigns md = Some cs"
  then show "distinct (map rp_region (regionalData (Some md)))" by (simp add: regional_keys)
next
  assume "campaigns md = Some cs"
  then show "set (map rp_region (regionalData (Some md))) = rp_region ` set (all_regional cs)"
    using regional_keys by blast
next
  fix x
  assume a: "campaigns md = Some cs" and x: "x \<in> set (regionalData (Some md))"
  from regional_entries [OF a x] show "region_group (rp_region x) cs \<noteq> []" by simp
  from regional_entries [OF a x] show "region_sums x (region_group (rp_region x) cs)" by simp
  { assume "length (region_group (rp_region x) cs) = 1"
    with regional_entries [OF a x] show "x = hd (region_group (rp_region x) cs)" by simp }
  { assume h: "1 < length (region_group (rp_region x) cs) \<and>
          (\<forall>r \<in> set (region_group (rp_region x) cs). region_counts_ok r)"
    then have l: "1 < length (region_group (rp_region x) cs)"
      and k: "\<And>r. r \<in> set (region_group (rp_region x) cs) \<Longrightarrow> region_counts_ok r"
      by simp_all
    from a x l k show "rates_from_sums x" by (rule regional_entries_from_sums) }
next
  show "map rp_roas (regionalData (Some \<lparr>campaigns = Some ex_regional_cs\<rparr>)) = [250 / 150]"
    by (rule regional_example)
next
  show "(250 / 150 :: real) \<noteq> (2 + 1) / 2" by simp
qed

theorem regional_rollup_recomputes_rates_witness:
  "map_of [(''Dubai'', ex_dubai_a)] (rp_region ex_dubai_b) = Some ex_dubai_a \<and>
   region_counts_ok ex_dubai_a \<and> region_counts_ok ex_dubai_b \<and>
   campaigns \<lparr>campaigns = Some ex_regional_cs\<rparr> = Some ex_regional_cs \<and>
   list_all region_counts_ok
     (region_group (rp_region (region_merge ex_dubai_a ex_dubai_b)) ex_regional_cs) \<and>
   region_merge ex_dubai_a ex_dubai_b \<in> set (regionalData (Some \<lparr>campaigns = Some ex_regional_cs\<rparr>)) \<and>
   1 < length (region_group (rp_region (region_merge ex_dubai_a ex_dubai_b)) ex_regional_cs) \<and>
   map_of (region_step [(''Dubai'', ex_dubai_a)] ex_dubai_b) (rp_region ex_dubai_b)
     = Some (region_merge ex_dubai_a ex_dubai_b) \<and>
   rates_from_sums (region_merge ex_dubai_a ex_dubai_b) \<and>
   rp_spend (region_merge ex_dubai_a ex_dubai_b) = 150 \<and>
   rp_revenue (region_merge ex_dubai_a ex_dubai_b) = 250 \<and>
   rp_roas (region_merge ex_dubai_a ex_dubai_b) = 5 / 3"
proof -
  let ?x = "region_merge ex_dubai_a ex_dubai_b"
  let ?md = "\<lparr>campaigns = Some ex_regional_cs\<rparr>"
  have h1: "map_of [(''Dubai'', ex_dubai_a)] (rp_region ex_dubai_b) = Some ex_dubai_a"
    by (simp add: ex_dubai_b_def)
  have k: "region_counts_ok ex_dubai_a \<and> region_counts_ok ex_dubai_b"
    by (simp add: region_counts_ok_def ex_dubai_a_def ex_dubai_b_def)
  have h2: "campaigns ?md = Some ex_regional_cs" by simp
  have al: "region_group (rp_region ?x) ex_regional_cs = [ex_dubai_a, ex_dubai_b]"
    by (simp add: region_group_def all_regional_def ex_regional_cs_def campaign_with_def
        ex_dubai_a_def ex_dubai_b_def)
  have la: "list_all region_counts_ok (region_group (rp_region ?x) ex_regional_cs)"
    using k by (simp only: al) simp
  then have ba: "\<forall>r \<in> set (region_group (rp_region ?x) ex_regional_cs). region_counts_ok r"
    by (simp only: list_all_iff)
  have h3: "?x \<in> set (regionalData (Some ?md))"
    by (simp add: regionalData_def regionMap_of_def region_campaign_def region_step_def
        ex_regional_cs_def ex_dubai_a_def ex_dubai_b_def campaign_with_def Let_def)
  have h4: "1 < length (region_group (rp_region ?x) ex_regional_cs)"
    by (simp add: region_group_def all_regional_def ex_regional_cs_def ex_dubai_a_def
        ex_dubai_b_def campaign_with_def)
  have v: "rp_spend ?x = 150 \<and> rp_revenue ?x = 250" by (simp add: ex_dubai_a_def ex_dubai_b_def)
  note t = regional_rollup_recomputes_rates
    [where m = "[(''Dubai'', ex_dubai_a)]" and r = ex_dubai_b and e = ex_dubai_a
       and md = ?md and cs = ex_regional_cs]
  from t h1 have st: "map_of (region_step [(''Dubai'', ex_dubai_a)] ex_dubai_b) (rp_region ex_dubai_b)
     = Some ?x" by blast
  from t h1 k have f1: "rates_from_sums ?x" by blast
  from t h2 ba h3 h4 have f: "rates_from_sums ?x" by blast
  then have "rp_roas ?x = 5 / 3" using v by (simp add: rates_from_sums_def)
  with h1 k h2 la h3 h4 st f v show ?thesis by blast
qed

lemma weekly_example:
  "map wp_clicks (weeklyData getTime (Some \<lparr>campaigns = Some ex_weekly_cs\<rparr>)) = [30]"
  by (simp add: weeklyData_def weekMap_of_def week_campaign_def week_step_def week_merge_def
      ex_weekly_cs_def ex_week_def campaign_with_def Let_def)

text \<open>
  Claim C2.  The weekly rollup has exactly one entry per distinct \<open>week_start\<close>:
  the keys of the result are distinct and are the keys of the input records.  Each entry
  is the first record of its key with impressions, clicks, conversions, spend and revenue
  replaced by the sums over all records of that key.  The result is sorted ascending by
  \<open>getTime\<close> of \<open>week_start\<close>, and entries with the same chronological value
  keep the order in which their keys were first met.  Two campaigns reporting
  \<open>2024-01-01\<close> with 10 and 20 clicks give one entry with 30 clicks.
\<close>

theorem weekly_rollup_one_entry_per_week:
  "(campaigns md = Some cs \<longrightarrow>
      distinct (map wp_week_start (weeklyData getTime (Some md))) \<and>
      set (map wp_week_start (weeklyData getTime (Some md))) = wp_week_start ` set (all_weekly cs) \<and>
      (\<forall>w \<in> set (weeklyData getTime (Some md)).
         week_group (wp_week_start w) cs \<noteq> [] \<and>
         w = week_entry (week_group (wp_week_start w) cs)) \<and>
      sorted (map (\<lambda>w. getTime (wp_week_start w)) (weeklyData getTime (Some md))) \<and>
      (\<forall>t. map wp_week_start
             (filter (\<lambda>w. getTime (wp_week_start w) = t) (weeklyData getTime (Some md)))
           = filter (\<lambda>k. getTime k = t) (first_keys (map wp_week_start (all_weekly cs))))) \<and>
   map wp_clicks (weeklyData getTime (Some \<lparr>campaigns = Some ex_weekly_cs\<rparr>)) = [30]"
proof (intro conjI impI ballI allI)
  assume c: "campaigns md = Some cs"
  show "distinct (map wp_week_start (weeklyData getTime (Some md)))"
    using weekly_keys_sorted [of "\<lambda>w. getTime (wp_week_start w)" cs]
    by (simp only: weeklyData_Some [OF c])
  show "set (map wp_week_start (weeklyData getTime (Some md))) = wp_week_start ` set (all_weekly cs)"
    using weekly_keys_sorted [of "\<lambda>w. getTime (wp_week_start w)" cs]
    by (simp only: weeklyData_Some [OF c])
  show "sorted (map (\<lambda>w. getTime (wp_week_start w)) (weeklyData getTime (Some md)))"
    by (simp only: weeklyData_Some [OF c] weekly_sorted)
next
  fix w assume c: "campaigns md = Some cs" and "w \<in> set (weeklyData getTime (Some md))"
  then have w: "w \<in> set (map snd (weekMap_of cs))" by (simp add: weeklyData_Some)
  from weekly_entries [OF w] show "week_group (wp_week_start w) cs \<noteq> []" by simp
  from weekly_entries [OF w] show "w = week_entry (week_group (wp_week_start w) cs)" by simp
next
  fix t assume c: "campaigns md = Some cs"
  show "map wp_week_start
          (filter (\<lambda>w. getTime (wp_week_start w) = t) (weeklyData getTime (Some md)))
        = filter (\<lambda>k. getTime k = t) (first_keys (map wp_week_start (all_weekly cs)))"
    by (simp only: weeklyData_Some [OF c] weekly_stable)
next
  show "map wp_clicks (weeklyData getTime (Some \<lparr>campaigns = Some ex_weekly_cs\<rparr>)) = [30]"
    by (rule weekly_example)
qed

lemma weekly_example2:
  "weeklyData ex_getTime (Some \<lparr>campaigns = Some ex_weekly_cs2\<rparr>) =
     [(ex_week ''2024-01-01'' ''2024-01-07'' 10)
        \<lparr>wp_impressions := 3000, wp_clicks := 30, wp_conversions := 2, wp_spend := 20, wp_revenue := 80\<rparr>,
      ex_week ''2024-01-08'' ''2024-01-14'' 5]"
  by (simp add: weeklyData_def weekMap_of_def week_campaign_def week_step_def week_merge_def
      ex_weekly_cs2_def ex_week_def campaign_with_def ex_getTime_def Let_def)

theorem weekly_rollup_one_entry_per_week_witness:
  "campaigns \<lparr>campaigns = Some ex_weekly_cs2\<rparr> = Some ex_weekly_cs2 \<and>
   map wp_week_start (weeklyData ex_getTime (Some \<lparr>campaigns = Some ex_weekly_cs2\<rparr>))
     = [''2024-01-01'', ''2024-01-08''] \<and>
   map wp_clicks (weeklyData ex_getTime (Some \<lparr>campaigns = Some ex_weekly_cs2\<rparr>)) = [30, 5] \<and>
   distinct (map wp_week_start (weeklyData ex_getTime (Some \<lparr>campaigns = Some ex_weekly_cs2\<rparr>))) \<and>
   sorted (map (\<lambda>w. ex_getTime (wp_week_start w))
     (weeklyData ex_getTime (Some \<lparr>campaigns = Some ex_weekly_cs2\<rparr>))) \<and>
   hd (weeklyData ex_getTime (Some \<lparr>campaigns = Some ex_weekly_cs2\<rparr>))
     = week_entry (week_group ''2024-01-01'' ex_weekly_cs2)"
proof -
  let ?md = "\<lparr>campaigns = Some ex_weekly_cs2\<rparr>"
  have h: "campaigns ?md = Some ex_weekly_cs2" by simp
  note t = weekly_rollup_one_entry_per_week
    [where md = ?md and cs = ex_weekly_cs2 and getTime = ex_getTime]
  have k: "map wp_week_start (weeklyData ex_getTime (Some ?md)) = [''2024-01-01'', ''2024-01-08'']"
    by (simp add: weekly_example2 ex_week_def)
  have c: "map wp_clicks (weeklyData ex_getTime (Some ?md)) = [30, 5]"
    by (simp add: weekly_example2 ex_week_def)
  have m: "hd (weeklyData ex_getTime (Some ?md)) \<in> set (weeklyData ex_getTime (Some ?md))"
    by (simp add: weekly_example2)
  have s: "wp_week_start (hd (weeklyData ex_getTime (Some ?md))) = ''2024-01-01''"
    by (simp add: weekly_example2 ex_week_def)
  from t h m have "hd (weeklyData ex_getTime (Some ?md))
      = week_entry (week_group (wp_week_start (hd (weeklyData ex_getTime (Some ?md)))) ex_weekly_cs2)"
    by blast
  then have e: "hd (weeklyData ex_getTime (Some ?md)) = week_entry (week_group ''2024-01-01'' ex_weekly_cs2)"
    by (simp only: s)
  from t h k c e show ?thesis by blast
qed

subsection \<open>Demographic rollup\<close>

lemma demo_gender_other:
  "\<not> male_or_female demo \<Longrightarrow> demo_gender campaign demo st = st"
  by (simp add: demo_gender_def male_or_female_def)

lemma demo_gender_maps [simp]:
  "ageGroupSpend (demo_gender c d st) = ageGroupSpend st"
  "ageGroupRevenue (demo_gender c d st) = ageGroupRevenue st"
  by (simp_all add: demo_gender_def)

lemma js_add_defined: "r \<noteq> Undefined \<Longrightarrow> \<exists>v. js_add r x = Some v"
  by (cases r) (auto simp: js_add_def split: dict_value.splits)

lemma js_get_defined: "k \<in> dom obj \<Longrightarrow> js_get obj k \<noteq> Undefined"
  by (auto simp: js_get_def)

lemma js_get_truthy: "\<not> js_falsy (js_get obj k) \<Longrightarrow> k \<in> dom obj \<or> k \<in> set object_prototype_keys"
  by (auto simp: js_get_def js_falsy_def split: option.splits if_splits)

lemma js_get_inherited: "k \<in> set object_prototype_keys \<Longrightarrow> js_get obj k \<noteq> Undefined"
  by (auto simp: js_get_def split: option.splits)

lemma js_set_dom: "dom (js_set obj k v) = (if k = ''__proto__'' then dom obj else insert k (dom obj))"
  by (simp add: js_set_def)

lemma js_get_set: "k \<noteq> ''__proto__'' \<Longrightarrow> js_get (js_set obj k v) k = Own v"
  by (simp add: js_get_def js_set_def)

lemma proto_inherited: "''__proto__'' \<in> set object_prototype_keys"
  by (simp add: object_prototype_keys_def)

lemma demo_age_result:
  assumes "age_maps_ok st"
  shows "\<exists>st'. demo_age c d st = Some st' \<and> age_maps_ok st' \<and> gender_part st' = gender_part st"
proof -
  define k where "k = age_group d"
  define st1 where "st1 = (if js_falsy (js_get (ageGroupSpend st) k)
                 then st\<lparr>ageGroupSpend := js_set (ageGroupSpend st) k (Num 0),
                         ageGroupRevenue := js_set (ageGroupRevenue st) k (Num 0)\<rparr>
                 else st)"
  have ok1: "dom (ageGroupSpend st1) \<subseteq> dom (ageGroupRevenue st1)"
    using assms unfolding st1_def
    by (cases "js_falsy (js_get (ageGroupSpend st) k)") (auto simp: age_maps_ok_def js_set_dom)
  have g1: "gender_part st1 = gender_part st" by (simp add: st1_def gender_part_def)
  have rs: "js_get (ageGroupSpend st1) k \<noteq> Undefined"
  proof (cases "js_falsy (js_get (ageGroupSpend st) k)")
    case True
    show ?thesis
    proof (cases "k = ''__proto__''")
      case True
      then show ?thesis using proto_inherited by (simp add: js_get_inherited)
    next
      case False
      with True show ?thesis by (simp add: st1_def js_get_set)
    qed
  next
    case False
    from js_get_truthy [OF this]
    have "k \<in> dom (ageGroupSpend st) \<or> k \<in> set object_prototype_keys" .
    then have "js_get (ageGroupSpend st) k \<noteq> Undefined"
      using js_get_defined [of k "ageGroupSpend st"] js_get_inherited [of k "ageGroupSpend st"]
      by blast
    with False show ?thesis by (simp add: st1_def)
  qed
  have rr: "js_get (ageGroupRevenue st1) k \<noteq> Undefined"
  proof (cases "js_falsy (js_get (ageGroupSpend st) k)")
    case True
    show ?thesis
    proof (cases "k = ''__proto__''")
      case True
      then show ?thesis using proto_inherited by (simp add: js_get_inherited)
    next
      case False
      with True show ?thesis by (simp add: st1_def js_get_set)
    qed
  next
    case False
    from js_get_truthy [OF this]
    have "k \<in> dom (ageGroupSpend st) \<or> k \<in> set object_prototype_keys" .
    then have "k \<in> dom (ageGroupRevenue st) \<or> k \<in> set object_prototype_keys"
      using assms by (auto simp: age_maps_ok_def)
    then have "js_get (ageGroupRevenue st) k \<noteq> Undefined"
      using js_get_defined [of k "ageGroupRevenue st"] js_get_inherited [of k "ageGroupRevenue st"]
      by blast
    with False show ?thesis by (simp add: st1_def)
  qed
  from js_add_defined [OF rs] obtain s where
    s: "js_add (js_get (ageGroupSpend st1) k) (demoSpend c d) = Some s" by blast
  from js_add_defined [OF rr] obtain r where
    r: "js_add (js_get (ageGroupRevenue st1) k) (demoRevenue c d) = Some r" by blast
  define st' where "st' = st1\<lparr>ageGroupSpend := js_set (ageGroupSpend st1) k s,
      ageGroupRevenue := js_set (ageGroupRevenue st1) k r\<rparr>"
  have "demo_age c d st = (case js_add (js_get (ageGroupSpend st1) k) (demoSpend c d) of
           None \<Rightarrow> None
         | Some s \<Rightarrow>
             (case js_add (js_get (ageGroupRevenue st1) k) (demoRevenue c d) of
                None \<Rightarrow> None
              | Some r \<Rightarrow>
                  Some (st1\<lparr>ageGroupSpend := js_set (ageGroupSpend st1) k s,
                            ageGroupRevenue := js_set (ageGroupRevenue st1) k r\<rparr>)))"
    unfolding demo_age_def Let_def st1_def k_def by (rule refl)
  then have e: "demo_age c d st = Some st'" by (simp add: s r st'_def)
  have ok: "age_maps_ok st'" using ok1 by (auto simp: age_maps_ok_def st'_def js_set_dom)
  have g: "gender_part st' = gender_part st" using g1 by (simp add: gender_part_def st'_def)
  from e ok g show ?thesis by blast
qed

lemma age_maps_ok_gender: "age_maps_ok (demo_gender c d st) = age_maps_ok st"
  by (simp add: age_maps_ok_def)

lemma demo_step_result:
  assumes "age_maps_ok st"
  shows "\<exists>st'. demo_step c d st = Some st' \<and> age_maps_ok st' \<and>
           gender_part st' = gender_part (demo_gender c d st)"
  using demo_age_result [of "demo_gender c d st" c d] assms
  by (auto simp: demo_step_def age_maps_ok_gender)

lemma gender_part_demo_gender:
  "gender_part st1 = gender_part st2 \<Longrightarrow>
     gender_part (demo_gender c d st1) = gender_part (demo_gender c d st2)"
  by (simp add: gender_part_def demo_gender_def)

lemma gender_part_fold:
  "gender_part s1 = gender_part s2 \<Longrightarrow>
     gender_part (fold (demo_gender c) ds s1) = gender_part (fold (demo_gender c) ds s2)"
proof (induction ds arbitrary: s1 s2)
  case Nil
  then show ?case by simp
next
  case (Cons d ds)
  from Cons.prems have "gender_part (demo_gender c d s1) = gender_part (demo_gender c d s2)"
    by (rule gender_part_demo_gender)
  then have "gender_part (fold (demo_gender c) ds (demo_gender c d s1))
      = gender_part (fold (demo_gender c) ds (demo_gender c d s2))"
    by (rule Cons.IH)
  then show ?case by simp
qed

lemma demo_slices_result:
  "age_maps_ok st \<Longrightarrow>
     \<exists>st'. demo_slices c ds st = Some st' \<and> age_maps_ok st' \<and>
       gender_part st' = gender_part (fold (demo_gender c) ds st)"
proof (induction ds arbitrary: st)
  case Nil
  then show ?case by simp
next
  case (Cons d ds)
  from demo_step_result [OF Cons.prems, of c d] obtain st1 where
    st1: "demo_step c d st = Some st1" "age_maps_ok st1"
      "gender_part st1 = gender_part (demo_gender c d st)" by blast
  from Cons.IH [OF st1(2)] obtain st' where
    st': "demo_slices c ds st1 = Some st'" "age_maps_ok st'"
      "gender_part st' = gender_part (fold (demo_gender c) ds st1)" by blast
  have g: "gender_part (fold (demo_gender c) ds st1) = gender_part (fold (demo_gender c) ds (demo_gender c d st))"
    using st1(3) by (rule gender_part_fold)
  have "gender_part st' = gender_part (fold (demo_gender c) ds (demo_gender c d st))"
    using st'(3) g by (rule trans)
  then have e: "gender_part st' = gender_part (fold (demo_gender c) (d # ds) st)"
    by simp
  have "demo_slices c (d # ds) st = Some st'" by (simp add: st1(1) st'(1))
  with st'(2) e show ?case by blast
qed

lemma fold_demo_gender_filter:
  "fold (demo_gender c) (filter male_or_female ds) st = fold (demo_gender c) ds st"
proof (induction ds arbitrary: st)
  case Nil
  show ?case by simp
next
  case (Cons d ds)
  show ?case
  proof (cases "male_or_female d")
    case True
    then show ?thesis by (simp add: Cons.IH)
  next
    case False
    then have "demo_gender c d st = st" by (rule demo_gender_other)
    with False show ?thesis by (simp add: Cons.IH)
  qed
qed

lemma gender_run_simps [simp]:
  "gender_run [] st = st"
  "gender_run (c # cs) st =
     (case demographic_breakdown c of
        None \<Rightarrow> gender_run cs st
      | Some ds \<Rightarrow> gender_run cs (fold (demo_gender c) ds st))"
  by (simp_all add: gender_run_def gender_campaign_def split: option.splits)

lemma gender_part_gender_run:
  "gender_part s1 = gender_part s2 \<Longrightarrow> gender_part (gender_run cs s1) = gender_part (gender_run cs s2)"
proof (induction cs arbitrary: s1 s2)
  case Nil
  then show ?case by simp
next
  case (Cons c cs)
  show ?case
  proof (cases "demographic_breakdown c")
    case None
    from Cons.prems have "gender_part (gender_run cs s1) = gender_part (gender_run cs s2)"
      by (rule Cons.IH)
    then show ?thesis using None by simp
  next
    case (Some ds)
    from Cons.prems have "gender_part (fold (demo_gender c) ds s1) = gender_part (fold (demo_gender c) ds s2)"
      by (rule gender_part_fold)
    then have "gender_part (gender_run cs (fold (demo_gender c) ds s1))
        = gender_part (gender_run cs (fold (demo_gender c) ds s2))"
      by (rule Cons.IH)
    then show ?thesis using Some by simp
  qed
qed

lemma demo_campaigns_result:
  "age_maps_ok st \<Longrightarrow>
     \<exists>st'. demo_campaigns cs st = Some st' \<and> age_maps_ok st' \<and>
       gender_part st' = gender_part (gender_run cs st)"
proof (induction cs arbitrary: st)
  case Nil
  then show ?case by simp
next
  case (Cons c cs)
  show ?case
  proof (cases "demographic_breakdown c")
    case None
    then show ?thesis using Cons by simp
  next
    case (Some ds)
    from demo_slices_result [OF Cons.prems, of c ds] obtain st1 where
      st1: "demo_slices c ds st = Some st1" "age_maps_ok st1"
        "gender_part st1 = gender_part (fold (demo_gender c) ds st)" by blast
    from Cons.IH [OF st1(2)] obtain st' where
      st': "demo_campaigns cs st1 = Some st'" "age_maps_ok st'"
        "gender_part st' = gender_part (gender_run cs st1)" by blast
    from st1(3) have "gender_part (gender_run cs st1) = gender_part (gender_run cs (fold (demo_gender c) ds st))"
      by (rule gender_part_gender_run)
    with st'(3) have "gender_part st' = gender_part (gender_run cs (fold (demo_gender c) ds st))"
      by (rule trans)
    then have e: "gender_part st' = gender_part (gender_run (c # cs) st)"
      by (simp add: Some)
    have "demo_campaigns (c # cs) st = Some st'" by (simp add: Some st1(1) st'(1))
    with st'(2) e show ?thesis by blast
  qed
qed

lemma demo_gender_campaign_irrelevant:
  "name c' = name c \<Longrightarrow> spend c' = spend c \<Longrightarrow> revenue c' = revenue c \<Longrightarrow>
     demo_gender c' = demo_gender c"
  by (intro ext) (simp add: demo_gender_def demoSpend_def demoRevenue_def age_performance_def)

lemma gender_run_only_male_female:
  "gender_run (map only_male_female cs) st = gender_run cs st"
proof (induction cs arbitrary: st)
  case Nil
  show ?case by simp
next
  case (Cons c cs)
  have g: "demo_gender (only_male_female c) = demo_gender c"
    by (rule demo_gender_campaign_irrelevant) (simp_all add: only_male_female_def)
  have d: "demographic_breakdown (only_male_female c)
             = map_option (filter male_or_female) (demographic_breakdown c)"
    by (simp add: only_male_female_def)
  show ?case
  proof (cases "demographic_breakdown c")
    case None
    then show ?thesis by (simp add: d Cons.IH)
  next
    case (Some ds)
    then show ?thesis by (simp add: d g Cons.IH fold_demo_gender_filter)
  qed
qed

lemma age_maps_ok_empty: "age_maps_ok emptyDemographicData"
  by (simp add: age_maps_ok_def emptyDemographicData_def)

lemma demographicData_total:
  "\<exists>y. demographicData marketingData = Some y"
proof (cases marketingData)
  case None
  then show ?thesis by (simp add: demographicData_def)
next
  case (Some md)
  show ?thesis
  proof (cases "campaigns md")
    case None
    with Some show ?thesis by (simp add: demographicData_def)
  next
    case (Some cs)
    from demo_campaigns_result [OF age_maps_ok_empty, of cs] obtain y where
      "demo_campaigns cs emptyDemographicData = Some y" by blast
    with Some \<open>marketingData = Some md\<close> show ?thesis by (simp add: demographicData_def)
  qed
qed

lemma demographic_other_gender_no_effect:
  assumes "demo_campaigns cs emptyDemographicData = Some y"
    and "demo_campaigns (map only_male_female cs) emptyDemographicData = Some y'"
  shows "gender_part y = gender_part y'"
proof -
  from demo_campaigns_result [OF age_maps_ok_empty, of cs] assms(1)
  have 1: "gender_part y = gender_part (gender_run cs emptyDemographicData)" by simp
  from demo_campaigns_result [OF age_maps_ok_empty, of "map only_male_female cs"] assms(2)
  have 2: "gender_part y' = gender_part (gender_run (map only_male_female cs) emptyDemographicData)" by simp
  show ?thesis by (simp add: 1 2 gender_run_only_male_female)
qed







text \<open>
  Claim C4.  A slice whose gender is neither \<open>Male\<close> nor \<open>Female\<close> leaves the
  gender totals and the per-gender sequences as they were (lemmas
  \<open>demo_gender_other\<close> and \<open>demographic_other_gender_no_effect\<close>), and the rollup
  returns a result on every input (lemma \<open>demographicData_total\<close>).  Its \<open>demoSpend\<close> and
  \<open>demoRevenue\<close> are not always added to the entries of its age group: the
  initialisation check \<open>!ageGroupSpend[demo.age_group]\<close> also holds for an entry that is
  present with the value 0, and then both entries of the age group are set back to 0
  before the addition.  For the campaign with spend 0 and revenue 1000, the male slice of
  5 percent leaves spend 0 and revenue 50 in the age group \<open>18-24\<close>; the slice of
  another gender with 1 percent (\<open>demoRevenue\<close> 10) then stores revenue 10, where
  adding gives 60.  The rollup of that input returns revenue 10 for the age group.
\<close>

theorem other_gender_slice_resets_age_group_revenue:
  "\<not> male_or_female (ex_slice ''Other'' ''18-24'' 1 5) \<and>
   demoSpend ex_unpaid (ex_slice ''Other'' ''18-24'' 1 5) = 0 \<and>
   demoRevenue ex_unpaid (ex_slice ''Other'' ''18-24'' 1 5) = 10 \<and>
   map_option (\<lambda>st. (ageGroupSpend st, ageGroupRevenue st))
     (demo_step ex_unpaid (ex_slice ''Male'' ''18-24'' 5 50) emptyDemographicData)
     = Some (ageGroupSpend ex_after_male, ageGroupRevenue ex_after_male) \<and>
   ageGroupSpend ex_after_male ''18-24'' = Some (Num 0) \<and>
   ageGroupRevenue ex_after_male ''18-24'' = Some (Num 50) \<and>
   map_option (\<lambda>st. (ageGroupSpend st ''18-24'', ageGroupRevenue st ''18-24''))
     (demo_step ex_unpaid (ex_slice ''Other'' ''18-24'' 1 5) ex_after_male)
     = Some (Some (Num 0), Some (Num 10)) \<and>
   map_option (\<lambda>y. (maleRevenue y, ageGroupSpend y ''18-24'', ageGroupRevenue y ''18-24''))
     (demographicData (Some \<lparr>campaigns = Some ex_unpaid_cs\<rparr>))
     = Some (50, Some (Num 0), Some (Num 10)) \<and>
   Num 10 \<noteq> Num (50 + 10)"
proof (intro conjI)
  show "\<not> male_or_female (ex_slice ''Other'' ''18-24'' 1 5)"
    by (simp add: male_or_female_def ex_slice_def)
  show "demoSpend ex_unpaid (ex_slice ''Other'' ''18-24'' 1 5) = 0"
    by (simp add: demoSpend_def percentageMultiplier_def ex_unpaid_def campaign_with_def
        ex_slice_def)
  show "demoRevenue ex_unpaid (ex_slice ''Other'' ''18-24'' 1 5) = 10"
    by (simp add: demoRevenue_def percentageMultiplier_def ex_unpaid_def campaign_with_def
        ex_slice_def)
  show "map_option (\<lambda>st. (ageGroupSpend st, ageGroupRevenue st))
     (demo_step ex_unpaid (ex_slice ''Male'' ''18-24'' 5 50) emptyDemographicData)
     = Some (ageGroupSpend ex_after_male, ageGroupRevenue ex_after_male)"
    by (simp add: demo_step_def demo_age_def demo_gender_def js_falsy_def js_get_def js_set_def
        js_add_def object_prototype_keys_def demoSpend_def demoRevenue_def demoClicks_def
        percentageMultiplier_def ex_after_male_def emptyDemographicData_def ex_unpaid_def
        campaign_with_def ex_slice_def Let_def)
  show "ageGroupSpend ex_after_male ''18-24'' = Some (Num 0)" by (simp add: ex_after_male_def)
  show "ageGroupRevenue ex_after_male ''18-24'' = Some (Num 50)" by (simp add: ex_after_male_def)
  show "map_option (\<lambda>st. (ageGroupSpend st ''18-24'', ageGroupRevenue st ''18-24''))
     (demo_step ex_unpaid (ex_slice ''Other'' ''18-24'' 1 5) ex_after_male)
     = Some (Some (Num 0), Some (Num 10))"
    by (simp add: demo_step_def demo_age_def demo_gender_def js_falsy_def js_get_def js_set_def
        js_add_def demoSpend_def demoRevenue_def demoClicks_def percentageMultiplier_def
        ex_after_male_def emptyDemographicData_def ex_unpaid_def campaign_with_def ex_slice_def
        Let_def)
  show "map_option (\<lambda>y. (maleRevenue y, ageGroupSpend y ''18-24'', ageGroupRevenue y ''18-24''))
     (demographicData (Some \<lparr>campaigns = Some ex_unpaid_cs\<rparr>))
     = Some (50, Some (Num 0), Some (Num 10))"
    by (simp add: demographicData_def ex_unpaid_cs_def ex_unpaid_def ex_slice_def
        campaign_with_def emptyDemographicData_def demo_step_def demo_age_def demo_gender_def
        js_falsy_def js_get_def js_set_def js_add_def object_prototype_keys_def
        demoSpend_def demoRevenue_def demoClicks_def percentageMultiplier_def Let_def)
  show "Num 10 \<noteq> Num (50 + 10)" by simp
qed

subsection \<open>Device rollup\<close>

lemma device_step_mobile:
  "mobileData (device_step c d st) =
     (if dp_device d = ''Mobile'' then device_acc (mobileData st) d else mobileData st)"
  by (simp add: device_step_def Let_def)

lemma device_step_desktop:
  "desktopData (device_step c d st) =
     (if dp_device d = ''Desktop'' then device_acc (desktopData st) d else desktopData st)"
  by (simp add: device_step_def Let_def)

lemma fold_device_step:
  "mobileData (fold (device_step c) ds st)
     = foldl device_acc (mobileData st) (filter (\<lambda>x. dp_device x = ''Mobile'') ds) \<and>
   desktopData (fold (device_step c) ds st)
     = foldl device_acc (desktopData st) (filter (\<lambda>x. dp_device x = ''Desktop'') ds)"
  by (induction ds arbitrary: st) (simp_all add: device_step_mobile device_step_desktop)

lemma fold_device_campaign:
  "mobileData (fold device_campaign cs st)
     = foldl device_acc (mobileData st) (device_bucket ''Mobile'' cs) \<and>
   desktopData (fold device_campaign cs st)
     = foldl device_acc (desktopData st) (device_bucket ''Desktop'' cs)"
proof (induction cs arbitrary: st)
  case Nil
  show ?case by (simp add: device_bucket_def all_devices_def)
next
  case (Cons c cs)
  show ?case
  proof (cases "device_performance c")
    case None
    then show ?thesis
      using Cons.IH [of st] by (simp add: device_campaign_def device_bucket_def all_devices_def)
  next
    case (Some ds)
    then show ?thesis
      using Cons.IH [of "fold (device_step c) ds st"] fold_device_step [of c ds st]
      by (simp add: device_campaign_def device_bucket_def all_devices_def)
  qed
qed

lemma foldl_device_acc:
  "foldl device_acc a ds =
     a\<lparr>dp_impressions := dp_impressions a + sum_list (map dp_impressions ds),
       dp_clicks := dp_clicks a + sum_list (map dp_clicks ds),
       dp_conversions := dp_conversions a + sum_list (map dp_conversions ds),
       dp_spend := dp_spend a + sum_list (map dp_spend ds),
       dp_revenue := dp_revenue a + sum_list (map dp_revenue ds)\<rparr>"
  by (induction ds arbitrary: a) (simp_all add: device_acc_def add.assoc)

lemma device_loop_sums:
  "device_sums (mobileData (fold device_campaign cs emptyDeviceData)) (device_bucket ''Mobile'' cs) \<and>
   device_sums (desktopData (fold device_campaign cs emptyDeviceData)) (device_bucket ''Desktop'' cs)"
  by (simp add: fold_device_campaign foldl_device_acc device_sums_def emptyDeviceData_def emptyAgg_def)

lemma device_finish_fields:
  "dp_impressions (mobileData (device_finish st)) = dp_impressions (mobileData st)"
  "dp_clicks (mobileData (device_finish st)) = dp_clicks (mobileData st)"
  "dp_conversions (mobileData (device_finish st)) = dp_conversions (mobileData st)"
  "dp_spend (mobileData (device_finish st)) = dp_spend (mobileData st)"
  "dp_revenue (mobileData (device_finish st)) = dp_revenue (mobileData st)"
  "dp_impressions (desktopData (device_finish st)) = dp_impressions (desktopData st)"
  "dp_clicks (desktopData (device_finish st)) = dp_clicks (desktopData st)"
  "dp_conversions (desktopData (device_finish st)) = dp_conversions (desktopData st)"
  "dp_spend (desktopData (device_finish st)) = dp_spend (desktopData st)"
  "dp_revenue (desktopData (device_finish st)) = dp_revenue (desktopData st)"
  by (simp_all add: device_finish_def Let_def)

lemma device_finish_sums:
  "device_sums (mobileData (device_finish st)) b = device_sums (mobileData st) b"
  "device_sums (desktopData (device_finish st)) b = device_sums (desktopData st) b"
  by (simp_all add: device_sums_def device_finish_fields)

lemma device_finish_rates:
  "device_rates_recomputed (mobileData (device_finish st))"
  "device_rates_recomputed (desktopData (device_finish st))"
  by (simp_all add: device_rates_recomputed_def device_finish_fields)
     (simp_all add: device_finish_def Let_def)

lemma device_rates_nonneg:
  "device_rates_recomputed a \<Longrightarrow> 0 \<le> dp_impressions a \<Longrightarrow> 0 \<le> dp_clicks a \<Longrightarrow>
     device_rates_from_sums a"
  by (simp add: device_rates_recomputed_def device_rates_from_sums_def)

lemma deviceData_Some:
  "campaigns md = Some cs \<Longrightarrow>
     deviceData (Some md) = device_finish (fold device_campaign cs emptyDeviceData)"
  by (simp add: deviceData_def)

lemma device_example:
  "dp_ctr (mobileData (deviceData (Some \<lparr>campaigns = Some ex_device_cs\<rparr>))) = 19 / 10 \<and>
   mean_ctr (device_bucket ''Mobile'' ex_device_cs) = 11 / 2"
  by (simp add: deviceData_def device_finish_def device_campaign_def device_step_def
      device_acc_def emptyDeviceData_def emptyAgg_def ex_device_cs_def ex_device_def
      campaign_with_def mean_ctr_def device_bucket_def all_devices_def Let_def)

lemma deviceData_rates:
  "device_rates_recomputed (mobileData (deviceData marketingData)) \<and>
   device_rates_recomputed (desktopData (deviceData marketingData))"
proof -
  have e: "device_rates_recomputed (mobileData emptyDeviceData) \<and>
           device_rates_recomputed (desktopData emptyDeviceData)"
    by (simp add: device_rates_recomputed_def emptyDeviceData_def emptyAgg_def)
  show ?thesis
    by (cases marketingData; cases "campaigns (the marketingData)")
       (simp_all add: deviceData_def e device_finish_rates)
qed

lemma device_sums_counts_ok:
  assumes "device_sums a b" and "\<And>d. d \<in> set b \<Longrightarrow> device_counts_ok d"
  shows "0 \<le> dp_impressions a \<and> 0 \<le> dp_clicks a"
proof -
  have "0 \<le> sum_list (map dp_impressions b)" "0 \<le> sum_list (map dp_clicks b)"
    using assms(2) by (simp_all add: sum_list_map_nonneg device_counts_ok_def)
  with assms(1) show ?thesis by (simp add: device_sums_def)
qed

lemma deviceData_sums:
  assumes "campaigns md = Some cs"
  shows "device_sums (mobileData (deviceData (Some md))) (device_bucket ''Mobile'' cs)"
    and "device_sums (desktopData (deviceData (Some md))) (device_bucket ''Desktop'' cs)"
  by (simp_all add: deviceData_Some [OF assms] device_finish_sums device_loop_sums)

lemma deviceData_from_sums:
  assumes "campaigns md = Some cs"
  shows "(\<And>d. d \<in> set (device_bucket ''Mobile'' cs) \<Longrightarrow> device_counts_ok d) \<Longrightarrow>
           device_rates_from_sums (mobileData (deviceData (Some md)))"
    and "(\<And>d. d \<in> set (device_bucket ''Desktop'' cs) \<Longrightarrow> device_counts_ok d) \<Longrightarrow>
           device_rates_from_sums (desktopData (deviceData (Some md)))"
proof -
  assume m: "\<And>d. d \<in> set (device_bucket ''Mobile'' cs) \<Longrightarrow> device_counts_ok d"
  from device_sums_counts_ok [OF deviceData_sums(1) [OF assms(1)] m]
  show "device_rates_from_sums (mobileData (deviceData (Some md)))"
    using deviceData_rates [of "Some md"] by (simp add: device_rates_nonneg)
next
  assume k: "\<And>d. d \<in> set (device_bucket ''Desktop'' cs) \<Longrightarrow> device_counts_ok d"
  from device_sums_counts_ok [OF deviceData_sums(2) [OF assms(1)] k]
  show "device_rates_from_sums (desktopData (deviceData (Some md)))"
    using deviceData_rates [of "Some md"] by (simp add: device_rates_nonneg)
qed

text \<open>
  Claim C5.  Each device bucket (Mobile, Desktop) carries the sums of impressions,
  clicks, conversions, spend and revenue over the records of its device, and its
  \<open>ctr\<close> is the summed clicks divided by the summed impressions times 100, its
  \<open>conversion_rate\<close> the summed conversions divided by the summed clicks times 100,
  each 0 when the denominator is 0: they are computed from the accumulated sums, not
  taken from the records.  Impressions and clicks are not negative, as in the data
  model.  There is an input with campaigns of unequal size (100 and 900 mobile
  impressions) whose recomputed mobile \<open>ctr\<close> is 1.9 while the mean of the two
  per-campaign values is 5.5.
\<close>

theorem device_rollup_recomputes_rates:
  "(campaigns md = Some cs \<longrightarrow>
      device_sums (mobileData (deviceData (Some md))) (device_bucket ''Mobile'' cs) \<and>
      device_sums (desktopData (deviceData (Some md))) (device_bucket ''Desktop'' cs) \<and>
      ((\<forall>d \<in> set (device_bucket ''Mobile'' cs). device_counts_ok d) \<longrightarrow>
         device_rates_from_sums (mobileData (deviceData (Some md)))) \<and>
      ((\<forall>d \<in> set (device_bucket ''Desktop'' cs). device_counts_ok d) \<longrightarrow>
         device_rates_from_sums (desktopData (deviceData (Some md))))) \<and>
   device_rates_from_sums (mobileData (deviceData None)) \<and>
   device_rates_from_sums (desktopData (deviceData None)) \<and>
   device_rates_from_sums (mobileData (deviceData (Some \<lparr>campaigns = None\<rparr>))) \<and>
   device_rates_from_sums (desktopData (deviceData (Some \<lparr>campaigns = None\<rparr>))) \<and>
   dp_ctr (mobileData (deviceData (Some \<lparr>campaigns = Some ex_device_cs\<rparr>))) = 19 / 10 \<and>
   mean_ctr (device_bucket ''Mobile'' ex_device_cs) = 11 / 2 \<and>
   (\<exists>cs. list_all device_counts_ok (all_devices cs) \<and>
      dp_ctr (mobileData (deviceData (Some \<lparr>campaigns = Some cs\<rparr>)))
           \<noteq> mean_ctr (device_bucket ''Mobile'' cs))"
proof (intro conjI impI)
  assume c: "campaigns md = Some cs"
  show "device_sums (mobileData (deviceData (Some md))) (device_bucket ''Mobile'' cs)"
    using c by (rule deviceData_sums)
  show "device_sums (desktopData (deviceData (Some md))) (device_bucket ''Desktop'' cs)"
    using c by (rule deviceData_sums)
  { assume "\<forall>d \<in> set (device_bucket ''Mobile'' cs). device_counts_ok d"
    then have "\<And>d. d \<in> set (device_bucket ''Mobile'' cs) \<Longrightarrow> device_counts_ok d" by simp
    with c show "device_rates_from_sums (mobileData (deviceData (Some md)))"
      by (rule deviceData_from_sums) }
  { assume "\<forall>d \<in> set (device_bucket ''Desktop'' cs). device_counts_ok d"
    then have "\<And>d. d \<in> set (device_bucket ''Desktop'' cs) \<Longrightarrow> device_counts_ok d" by simp
    with c show "device_rates_from_sums (desktopData (deviceData (Some md)))"
      by (rule deviceData_from_sums) }
next
  show "device_rates_from_sums (mobileData (deviceData None))"
    by (simp add: deviceData_def emptyDeviceData_def emptyAgg_def device_rates_from_sums_def)
  show "device_rates_from_sums (desktopData (deviceData None))"
    by (simp add: deviceData_def emptyDeviceData_def emptyAgg_def device_rates_from_sums_def)
  show "device_rates_from_sums (mobileData (deviceData (Some \<lparr>campaigns = None\<rparr>)))"
    by (simp add: deviceData_def emptyDeviceData_def emptyAgg_def device_rates_from_sums_def)
  show "device_rates_from_sums (desktopData (deviceData (Some \<lparr>campaigns = None\<rparr>)))"
    by (simp add: deviceData_def emptyDeviceData_def emptyAgg_def device_rates_from_sums_def)
next
  show "dp_ctr (mobileData (deviceData (Some \<lparr>campaigns = Some ex_device_cs\<rparr>))) = 19 / 10"
    by (simp add: device_example)
  show "mean_ctr (device_bucket ''Mobile'' ex_device_cs) = 11 / 2"
    by (simp add: device_example)
  have "dp_ctr (mobileData (deviceData (Some \<lparr>campaigns = Some ex_device_cs\<rparr>)))
          \<noteq> mean_ctr (device_bucket ''Mobile'' ex_device_cs)"
    by (simp add: device_example)
  moreover have "list_all device_counts_ok (all_devices ex_device_cs)"
    by (simp add: all_devices_def ex_device_cs_def campaign_with_def ex_device_def
        device_counts_ok_def)
  ultimately show "\<exists>cs. list_all device_counts_ok (all_devices cs) \<and>
      dp_ctr (mobileData (deviceData (Some \<lparr>campaigns = Some cs\<rparr>)))
           \<noteq> mean_ctr (device_bucket ''Mobile'' cs)" by blast
qed

theorem device_rollup_recomputes_rates_witness:
  "campaigns \<lparr>campaigns = Some ex_device_cs\<rparr> = Some ex_device_cs \<and>
   list_all device_counts_ok (device_bucket ''Mobile'' ex_device_cs) \<and>
   dp_impressions (mobileData (deviceData (Some \<lparr>campaigns = Some ex_device_cs\<rparr>))) = 1000 \<and>
   dp_clicks (mobileData (deviceData (Some \<lparr>campaigns = Some ex_device_cs\<rparr>))) = 19 \<and>
   dp_conversions (mobileData (deviceData (Some \<lparr>campaigns = Some ex_device_cs\<rparr>))) = 2 \<and>
   dp_ctr (mobileData (deviceData (Some \<lparr>campaigns = Some ex_device_cs\<rparr>))) = 19 / 1000 * 100 \<and>
   dp_conversion_rate (mobileData (deviceData (Some \<lparr>campaigns = Some ex_device_cs\<rparr>)))
     = 2 / 19 * 100"
proof -
  let ?md = "\<lparr>campaigns = Some ex_device_cs\<rparr>"
  let ?m = "mobileData (deviceData (Some ?md))"
  have h: "campaigns ?md = Some ex_device_cs" by simp
  have b: "device_bucket ''Mobile'' ex_device_cs = [ex_device ''Mobile'' 100 10, ex_device ''Mobile'' 900 9]"
    by (simp add: device_bucket_def all_devices_def ex_device_cs_def campaign_with_def ex_device_def)
  have la: "list_all device_counts_ok (device_bucket ''Mobile'' ex_device_cs)"
    by (simp only: b) (simp add: ex_device_def device_counts_ok_def)
  then have ba: "\<forall>d \<in> set (device_bucket ''Mobile'' ex_device_cs). device_counts_ok d"
    by (simp only: list_all_iff)
  note t = device_rollup_recomputes_rates [where md = ?md and cs = ex_device_cs]
  from t h have "device_sums ?m (device_bucket ''Mobile'' ex_device_cs)" by blast
  then have s: "dp_impressions ?m = 1000 \<and> dp_clicks ?m = 19 \<and> dp_conversions ?m = 2"
    by (simp add: b device_sums_def ex_device_def)
  from t h ba have "device_rates_from_sums ?m" by blast
  then have r: "dp_ctr ?m = 19 / 1000 * 100 \<and> dp_conversion_rate ?m = 2 / 19 * 100"
    using s by (simp add: device_rates_from_sums_def)
  from h la s r show ?thesis by blast
qed

lemma device_finish_traffic:
  "dp_percentage_of_traffic (mobileData (device_finish st)) =
     (if 0 < dp_impressions (mobileData st) + dp_impressions (desktopData st)
      then dp_impressions (mobileData st)
             / (dp_impressions (mobileData st) + dp_impressions (desktopData st)) * 100
      else 0)"
  "dp_percentage_of_traffic (desktopData (device_finish st)) =
     (if 0 < dp_impressions (mobileData st) + dp_impressions (desktopData st)
      then dp_impressions (desktopData st)
             / (dp_impressions (mobileData st) + dp_impressions (desktopData st)) * 100
      else 0)"
  by (simp_all add: device_finish_def Let_def)

lemma device_finish_no_traffic:
  assumes "dp_impressions (mobileData (device_finish st)) + dp_impressions (desktopData (device_finish st)) = 0"
  shows "dp_percentage_of_traffic (mobileData (device_finish st)) = 0"
    and "dp_percentage_of_traffic (desktopData (device_finish st)) = 0"
proof -
  from assms have z: "dp_impressions (mobileData st) + dp_impressions (desktopData st) = 0"
    by (simp only: device_finish_fields)
  show "dp_percentage_of_traffic (mobileData (device_finish st)) = 0"
    by (simp only: device_finish_traffic z) simp
  show "dp_percentage_of_traffic (desktopData (device_finish st)) = 0"
    by (simp only: device_finish_traffic z) simp
qed

subsection \<open>Rounding to a double\<close>

lemma round_even_error: "\<bar>of_int (round_even y) - y\<bar> \<le> 1 / 2"
  unfolding round_even_def Let_def by (auto; linarith)

lemma round_even_eq:
  assumes "\<bar>y - of_int n\<bar> < 1 / 2"
  shows "round_even y = n"
proof -
  have "\<bar>of_int (round_even y) - y\<bar> \<le> 1 / 2" by (rule round_even_error)
  with assms have "\<bar>(of_int (round_even y) :: real) - of_int n\<bar> < 1" by linarith
  then have "\<bar>round_even y - n\<bar> < 1"
    by (metis of_int_abs of_int_diff of_int_less_1_iff)
  then show ?thesis by linarith
qed

lemma exponent_iff:
  assumes "x \<noteq> 0"
  shows "\<lfloor>log 2 \<bar>x\<bar>\<rfloor> = e \<longleftrightarrow> 2 powi e \<le> \<bar>x\<bar> \<and> \<bar>x\<bar> < 2 powi (e + 1)"
proof -
  from assms have p: "0 < \<bar>x\<bar>" by simp
  have a: "(2::real) powr of_int e = 2 powi e" by (rule powr_real_of_int') simp_all
  have b: "(2::real) powr of_int (e + 1) = 2 powi (e + 1)" by (rule powr_real_of_int') simp_all
  have "\<lfloor>log 2 \<bar>x\<bar>\<rfloor> = e \<longleftrightarrow>
      2 powr of_int e \<le> \<bar>x\<bar> \<and> \<bar>x\<bar> < 2 powr of_int (e + 1)"
    using p by (rule floor_log_eq_powr_iff) simp
  then show ?thesis by (simp only: a b)
qed

text \<open>The value of \<open>fl\<close> from the binade of its argument and the nearest multiple.\<close>

lemma fl_eq:
  assumes "2 powi e \<le> \<bar>x\<bar>" and "\<bar>x\<bar> < 2 powi (e + 1)"
    and "\<bar>x / 2 powi (e - 52) - of_int n\<bar> < 1 / 2"
  shows "fl x = of_int n * 2 powi (e - 52)"
proof -
  have "(0::real) < 2 powi e" by simp
  with assms(1) have "0 < \<bar>x\<bar>" by linarith
  then have nz: "x \<noteq> 0" by simp
  from assms(1,2) have "\<lfloor>log 2 \<bar>x\<bar>\<rfloor> = e" by (simp add: exponent_iff [OF nz])
  moreover from assms(3) have "round_even (x / 2 powi (e - 52)) = n" by (rule round_even_eq)
  ultimately show ?thesis using nz by (simp add: fl_def)
qed

lemma fl_exact:
  assumes "2 powi e \<le> \<bar>x\<bar>" and "\<bar>x\<bar> < 2 powi (e + 1)" and "x = of_int n * 2 powi (e - 52)"
  shows "fl x = x"
proof -
  have "x / 2 powi (e - 52) = of_int n" by (simp add: assms(3))
  then have "\<bar>x / 2 powi (e - 52) - of_int n\<bar> < 1 / 2" by simp
  with assms(1,2) have "fl x = of_int n * 2 powi (e - 52)" by (rule fl_eq)
  with assms(3) show ?thesis by simp
qed

text \<open>The relative error of one rounding is at most \<open>2^-53\<close>.\<close>

lemma fl_error: "\<bar>fl x - x\<bar> \<le> \<bar>x\<bar> / 2 ^ 53"
proof (cases "x = 0")
  case True
  then show ?thesis by (simp add: fl_def)
next
  case False
  define e where "e = \<lfloor>log 2 \<bar>x\<bar>\<rfloor>"
  define q :: real where "q = 2 powi (e - 52)"
  have q: "0 < q" by (simp add: q_def)
  from False have b: "2 powi e \<le> \<bar>x\<bar>" using exponent_iff [OF False, of e] by (simp add: e_def)
  have f: "fl x = of_int (round_even (x / q)) * q"
    using False by (simp add: fl_def e_def q_def Let_def)
  have "fl x - x = (of_int (round_even (x / q)) - x / q) * q"
    using q by (simp add: f field_simps)
  then have "\<bar>fl x - x\<bar> = \<bar>of_int (round_even (x / q)) - x / q\<bar> * q"
    using q by (simp add: abs_mult)
  also have "\<dots> \<le> 1 / 2 * q" using round_even_error [of "x / q"] q
    by (intro mult_right_mono) simp_all
  also have "1 / 2 * q = 2 powi e / 2 ^ 53"
    by (simp add: q_def power_int_diff)
  also have "\<dots> \<le> \<bar>x\<bar> / 2 ^ 53" using b by (simp add: divide_right_mono)
  finally show ?thesis .
qed

lemma fl_zero: "fl 0 = 0"
  by (simp add: fl_def)

lemma fl_pos:
  assumes "0 < x"
  shows "0 < fl x"
proof -
  have "\<bar>fl x - x\<bar> \<le> \<bar>x\<bar> / 2 ^ 53" by (rule fl_error)
  then have "\<bar>fl x - x\<bar> \<le> x / 2 ^ 53" using assms by simp
  moreover have "x / 2 ^ 53 < x" using assms by (simp add: field_simps)
  ultimately show ?thesis by linarith
qed

lemma fl_nonneg: "0 \<le> x \<Longrightarrow> 0 \<le> fl x"
  using fl_pos [of x] by (cases "x = 0") (simp_all add: fl_zero less_eq_real_def)

lemma fl_bounds:
  assumes "0 \<le> x"
  shows "(1 - 1 / 2 ^ 53) * x \<le> fl x" and "fl x \<le> (1 + 1 / 2 ^ 53) * x"
proof -
  have "\<bar>fl x - x\<bar> \<le> \<bar>x\<bar> / 2 ^ 53" by (rule fl_error)
  then have e: "\<bar>fl x - x\<bar> \<le> x / 2 ^ 53" using assms by simp
  have "(1 - 1 / 2 ^ 53) * x = x - x / 2 ^ 53" by (simp add: algebra_simps)
  with e show "(1 - 1 / 2 ^ 53) * x \<le> fl x" by linarith
  have "(1 + 1 / 2 ^ 53) * x = x + x / 2 ^ 53" by (simp add: algebra_simps)
  with e show "fl x \<le> (1 + 1 / 2 ^ 53) * x" by linarith
qed

lemma percentage_bounds:
  assumes "0 \<le> x"
  shows "(1 - 1 / 2 ^ 53) * ((1 - 1 / 2 ^ 53) * x) * 100 \<le> fl (fl x * 100)"
    and "fl (fl x * 100) \<le> (1 + 1 / 2 ^ 53) * ((1 + 1 / 2 ^ 53) * x) * 100"
proof -
  define l :: real where "l = 1 - 1 / 2 ^ 53"
  define h :: real where "h = 1 + 1 / 2 ^ 53"
  have l: "0 \<le> l" and h: "0 \<le> h" by (simp_all add: l_def h_def)
  from assms have q: "0 \<le> fl x" by (rule fl_nonneg)
  then have q100: "0 \<le> fl x * 100" by simp
  have a: "l * x \<le> fl x" and b: "fl x \<le> h * x"
    unfolding l_def h_def using assms by (rule fl_bounds)+
  have c: "l * (fl x * 100) \<le> fl (fl x * 100)" and d: "fl (fl x * 100) \<le> h * (fl x * 100)"
    unfolding l_def h_def using q100 by (rule fl_bounds)+
  have "l * (l * x) * 100 = l * ((l * x) * 100)" by simp
  also have "\<dots> \<le> l * (fl x * 100)" using a l by (intro mult_left_mono) simp_all
  also note c
  finally show "(1 - 1 / 2 ^ 53) * ((1 - 1 / 2 ^ 53) * x) * 100 \<le> fl (fl x * 100)"
    unfolding l_def .
  note d
  also have "h * (fl x * 100) \<le> h * ((h * x) * 100)" using b h by (intro mult_left_mono) simp_all
  also have "\<dots> = h * (h * x) * 100" by simp
  finally show "fl (fl x * 100) \<le> (1 + 1 / 2 ^ 53) * ((1 + 1 / 2 ^ 53) * x) * 100"
    unfolding h_def .
qed

text \<open>
  Three roundings lie between the impressions and each percentage: of the total, of the
  quotient and of the product.  Their relative errors add up to less than
  \<open>4 * 2^-53\<close> in the sum of the two percentages.
\<close>

lemma traffic_double_bound:
  assumes "0 \<le> m" and "0 \<le> d" and "0 < m + d"
  shows "\<bar>fl (fl (m / fl (m + d)) * 100) + fl (fl (d / fl (m + d)) * 100) - 100\<bar> \<le> 400 / 2 ^ 53"
proof -
  define l :: real where "l = 1 - 1 / 2 ^ 53"
  define h :: real where "h = 1 + 1 / 2 ^ 53"
  define t where "t = fl (m + d)"
  define k where "k = (m + d) / t"
  have l: "0 < l" and h: "0 < h" by (simp_all add: l_def h_def)
  have t: "0 < t" unfolding t_def using assms(3) by (rule fl_pos)
  from assms(3) have s: "0 \<le> m + d" by simp
  have tl: "l * (m + d) \<le> t" and th: "t \<le> h * (m + d)"
    unfolding l_def h_def t_def using s by (rule fl_bounds)+
  have kh: "k \<le> 1 / l"
  proof -
    from tl have "l * (m + d) / t \<le> 1" using t by (simp add: field_simps)
    then have "l * k \<le> 1" by (simp add: k_def)
    then show ?thesis using l by (simp add: field_simps)
  qed
  have kl: "1 / h \<le> k"
  proof -
    from th have "1 \<le> h * (m + d) / t" using t by (simp add: field_simps)
    then have "1 \<le> h * k" by (simp add: k_def)
    then show ?thesis using h by (simp add: field_simps)
  qed
  have xm: "0 \<le> m / t" and xd: "0 \<le> d / t" using assms(1,2) t by simp_all
  have sum: "m / t + d / t = k" by (simp add: k_def add_divide_distrib)
  let ?pm = "fl (fl (m / t) * 100)" and ?pd = "fl (fl (d / t) * 100)"
  have "l * (l * (m / t)) * 100 \<le> ?pm" "l * (l * (d / t)) * 100 \<le> ?pd"
    unfolding l_def using xm xd by (simp_all only: percentage_bounds)
  then have "l * (l * (m / t)) * 100 + l * (l * (d / t)) * 100 \<le> ?pm + ?pd" by linarith
  moreover have "l * (l * (m / t)) * 100 + l * (l * (d / t)) * 100 = l * l * 100 * k"
    by (simp add: sum [symmetric] algebra_simps)
  ultimately have lo1: "l * l * 100 * k \<le> ?pm + ?pd" by simp
  have "l * l * 100 * (1 / h) \<le> l * l * 100 * k" using kl l by (intro mult_left_mono) simp_all
  with lo1 have lo2: "l * l * 100 / h \<le> ?pm + ?pd" by simp
  have "?pm \<le> h * (h * (m / t)) * 100" "?pd \<le> h * (h * (d / t)) * 100"
    unfolding h_def using xm xd by (simp_all only: percentage_bounds)
  then have "?pm + ?pd \<le> h * (h * (m / t)) * 100 + h * (h * (d / t)) * 100" by linarith
  moreover have "h * (h * (m / t)) * 100 + h * (h * (d / t)) * 100 = h * h * 100 * k"
    by (simp add: sum [symmetric] algebra_simps)
  ultimately have hi1: "?pm + ?pd \<le> h * h * 100 * k" by simp
  have "h * h * 100 * k \<le> h * h * 100 * (1 / l)" using kh h by (intro mult_left_mono) simp_all
  with hi1 have hi2: "?pm + ?pd \<le> h * h * 100 / l" by simp
  have n1: "100 - 400 / 2 ^ 53 \<le> l * l * 100 / h" by (simp add: l_def h_def)
  have n2: "h * h * 100 / l \<le> 100 + 400 / 2 ^ 53" by (simp add: l_def h_def)
  from lo2 hi2 n1 n2 have "\<bar>?pm + ?pd - 100\<bar> \<le> 400 / 2 ^ 53" by linarith
  then show ?thesis by (simp only: t_def)
qed

text \<open>The roundings of the example: 1000 mobile and 300 desktop impressions.\<close>

lemma fl_100: "fl 100 = 100"
  by (rule fl_exact [where e = 6 and n = 7036874417766400]) simp_all

lemma fl_1000: "fl 1000 = 1000"
  by (rule fl_exact [where e = 9 and n = 8796093022208000]) simp_all

lemma fl_300: "fl 300 = 300"
  by (rule fl_exact [where e = 8 and n = 5277655813324800]) simp_all

lemma fl_1300: "fl 1300 = 1300"
  by (rule fl_exact [where e = 10 and n = 5717460464435200]) simp_all

lemma fl_mobile_share: "fl (1000 / 1300) = 6928614811339225 / 2 ^ 53"
  using fl_eq [of "- 1" "1000 / 1300" 6928614811339225] by simp

lemma fl_mobile_percentage: "fl (6928614811339225 / 2 ^ 53 * 100) = 5412980321358770 / 2 ^ 46"
  using fl_eq [of 6 "6928614811339225 / 2 ^ 53 * 100" 5412980321358770] by simp

lemma fl_desktop_share: "fl (300 / 1300) = 8314337773607070 / 2 ^ 55"
  using fl_eq [of "- 3" "300 / 1300" 8314337773607070] by simp

lemma fl_desktop_percentage: "fl (8314337773607070 / 2 ^ 55 * 100) = 6495576385630523 / 2 ^ 48"
  using fl_eq [of 4 "8314337773607070 / 2 ^ 55 * 100" 6495576385630523] by simp

lemma fl_percentage_sum:
  "fl (5412980321358770 / 2 ^ 46 + 6495576385630523 / 2 ^ 48) = 7036874417766401 / 2 ^ 46"
  using fl_eq [of 6 "5412980321358770 / 2 ^ 46 + 6495576385630523 / 2 ^ 48" 7036874417766401]
  by simp

subsection \<open>The traffic percentages in double precision\<close>

lemma device_finish_double_impressions:
  "dp_impressions (mobileData (device_finish_double st)) = dp_impressions (mobileData st)"
  "dp_impressions (desktopData (device_finish_double st)) = dp_impressions (desktopData st)"
  by (simp_all add: device_finish_double_def Let_def)

lemma device_finish_double_traffic:
  "dp_percentage_of_traffic (mobileData (device_finish_double st)) =
     (if 0 < fl (dp_impressions (mobileData st) + dp_impressions (desktopData st))
      then fl (fl (dp_impressions (mobileData st)
                 / fl (dp_impressions (mobileData st) + dp_impressions (desktopData st))) * 100)
      else 0)"
  "dp_percentage_of_traffic (desktopData (device_finish_double st)) =
     (if 0 < fl (dp_impressions (mobileData st) + dp_impressions (desktopData st))
      then fl (fl (dp_impressions (desktopData st)
                 / fl (dp_impressions (mobileData st) + dp_impressions (desktopData st))) * 100)
      else 0)"
  by (simp_all add: device_finish_double_def Let_def)

lemma whole_count_nonneg: "whole_count x \<Longrightarrow> 0 \<le> x"
  by (auto simp: whole_count_def elim: Nats_cases)

lemma device_finish_double_partition:
  assumes "0 \<le> dp_impressions (mobileData (device_finish_double st))"
    and "0 \<le> dp_impressions (desktopData (device_finish_double st))"
  shows "0 < dp_impressions (mobileData (device_finish_double st))
             + dp_impressions (desktopData (device_finish_double st)) \<Longrightarrow>
         \<bar>dp_percentage_of_traffic (mobileData (device_finish_double st))
            + dp_percentage_of_traffic (desktopData (device_finish_double st)) - 100\<bar>
           \<le> 400 / 2 ^ 53"
    and "dp_impressions (mobileData (device_finish_double st))
             + dp_impressions (desktopData (device_finish_double st)) = 0 \<Longrightarrow>
         dp_percentage_of_traffic (mobileData (device_finish_double st)) = 0 \<and>
         dp_percentage_of_traffic (desktopData (device_finish_double st)) = 0"
proof -
  let ?m = "dp_impressions (mobileData st)" and ?d = "dp_impressions (desktopData st)"
  from assms have m: "0 \<le> ?m" and d: "0 \<le> ?d"
    by (simp_all only: device_finish_double_impressions)
  { assume "0 < dp_impressions (mobileData (device_finish_double st))
             + dp_impressions (desktopData (device_finish_double st))"
    then have p: "0 < ?m + ?d" by (simp only: device_finish_double_impressions)
    then have t: "0 < fl (?m + ?d)" by (rule fl_pos)
    show "\<bar>dp_percentage_of_traffic (mobileData (device_finish_double st))
            + dp_percentage_of_traffic (desktopData (device_finish_double st)) - 100\<bar>
           \<le> 400 / 2 ^ 53"
      unfolding device_finish_double_traffic if_P [OF t] using m d p by (rule traffic_double_bound) }
  { assume "dp_impressions (mobileData (device_finish_double st))
             + dp_impressions (desktopData (device_finish_double st)) = 0"
    then have z: "?m + ?d = 0" by (simp only: device_finish_double_impressions)
    show "dp_percentage_of_traffic (mobileData (device_finish_double st)) = 0 \<and>
         dp_percentage_of_traffic (desktopData (device_finish_double st)) = 0"
      by (simp only: device_finish_double_traffic z fl_zero) simp }
qed

lemma deviceData_double_example:
  "dp_impressions (mobileData (deviceData_double (Some \<lparr>campaigns = Some ex_device_cs\<rparr>))) = 1000"
  "dp_impressions (desktopData (deviceData_double (Some \<lparr>campaigns = Some ex_device_cs\<rparr>))) = 300"
  "dp_percentage_of_traffic (mobileData (deviceData_double (Some \<lparr>campaigns = Some ex_device_cs\<rparr>)))
     = 5412980321358770 / 2 ^ 46"
  "dp_percentage_of_traffic (desktopData (deviceData_double (Some \<lparr>campaigns = Some ex_device_cs\<rparr>)))
     = 6495576385630523 / 2 ^ 48"
proof -
  let ?st = "fold device_campaign_double ex_device_cs emptyDeviceData"
  have m: "dp_impressions (mobileData ?st) = 1000"
    by (simp add: device_campaign_double_def device_step_double_def device_acc_double_def
        emptyDeviceData_def emptyAgg_def ex_device_cs_def ex_device_def campaign_with_def
        Let_def fl_100 fl_1000)
  have d: "dp_impressions (desktopData ?st) = 300"
    by (simp add: device_campaign_double_def device_step_double_def device_acc_double_def
        emptyDeviceData_def emptyAgg_def ex_device_cs_def ex_device_def campaign_with_def
        Let_def fl_300)
  have e: "deviceData_double (Some \<lparr>campaigns = Some ex_device_cs\<rparr>) = device_finish_double ?st"
    by (simp add: deviceData_double_def)
  show "dp_impressions (mobileData (deviceData_double (Some \<lparr>campaigns = Some ex_device_cs\<rparr>))) = 1000"
    by (simp only: e device_finish_double_impressions m)
  show "dp_impressions (desktopData (deviceData_double (Some \<lparr>campaigns = Some ex_device_cs\<rparr>))) = 300"
    by (simp only: e device_finish_double_impressions d)
  have t: "fl (1000 + 300) = 1300" using fl_1300 by simp
  show "dp_percentage_of_traffic (mobileData (deviceData_double (Some \<lparr>campaigns = Some ex_device_cs\<rparr>)))
     = 5412980321358770 / 2 ^ 46"
    by (simp only: e device_finish_double_traffic m d t fl_mobile_share fl_mobile_percentage) simp
  show "dp_percentage_of_traffic (desktopData (deviceData_double (Some \<lparr>campaigns = Some ex_device_cs\<rparr>)))
     = 6495576385630523 / 2 ^ 48"
    by (simp only: e device_finish_double_traffic m d t fl_desktop_share fl_desktop_percentage) simp
qed

text \<open>
  The claim as written makes the two percentages add up to exactly 100 whenever the
  total impressions are positive.  For 1000 mobile and 300 desktop impressions the code
  stores \<open>76.92307692307693\<close> and \<open>23.076923076923077\<close>; these two doubles add up to
  \<open>100 + 3 / 2^48\<close>, and their sum as the code would compute it is the double
  \<open>100.00000000000001\<close>, that is \<open>100 + 1 / 2^46\<close>.
\<close>

theorem device_traffic_percentages_counterexample:
  "dp_impressions (mobileData (deviceData_double (Some \<lparr>campaigns = Some ex_device_cs\<rparr>))) = 1000 \<and>
   dp_impressions (desktopData (deviceData_double (Some \<lparr>campaigns = Some ex_device_cs\<rparr>))) = 300 \<and>
   dp_percentage_of_traffic (mobileData (deviceData_double (Some \<lparr>campaigns = Some ex_device_cs\<rparr>)))
     = 5412980321358770 / 2 ^ 46 \<and>
   dp_percentage_of_traffic (desktopData (deviceData_double (Some \<lparr>campaigns = Some ex_device_cs\<rparr>)))
     = 6495576385630523 / 2 ^ 48 \<and>
   dp_percentage_of_traffic (mobileData (deviceData_double (Some \<lparr>campaigns = Some ex_device_cs\<rparr>)))
     + dp_percentage_of_traffic (desktopData (deviceData_double (Some \<lparr>campaigns = Some ex_device_cs\<rparr>)))
     = 100 + 3 / 2 ^ 48 \<and>
   dp_percentage_of_traffic (mobileData (deviceData_double (Some \<lparr>campaigns = Some ex_device_cs\<rparr>)))
     + dp_percentage_of_traffic (desktopData (deviceData_double (Some \<lparr>campaigns = Some ex_device_cs\<rparr>)))
     \<noteq> 100 \<and>
   fl (dp_percentage_of_traffic (mobileData (deviceData_double (Some \<lparr>campaigns = Some ex_device_cs\<rparr>)))
     + dp_percentage_of_traffic (desktopData (deviceData_double (Some \<lparr>campaigns = Some ex_device_cs\<rparr>))))
     = 100 + 1 / 2 ^ 46"
  by (simp only: deviceData_double_example fl_percentage_sum) simp

text \<open>
  Claim C10, as amended.  In the device rollup as the code computes it, on doubles: when
  the accumulated mobile and desktop impressions are whole numbers below \<open>2^53\<close> and
  their total is positive, the two \<open>percentage_of_traffic\<close> fields add up to 100 up to
  the rounding of the divisions and multiplications, that is within \<open>400 / 2^53\<close>
  (about \<open>4.5e-14\<close>) of 100, and not always to 100 itself; when the total is 0, both
  fields are 0.
\<close>

theorem device_traffic_percentages_partition_rounded:
  "(whole_count (dp_impressions (mobileData (deviceData_double marketingData))) \<and>
    whole_count (dp_impressions (desktopData (deviceData_double marketingData))) \<and>
    0 < dp_impressions (mobileData (deviceData_double marketingData))
        + dp_impressions (desktopData (deviceData_double marketingData)) \<longrightarrow>
      \<bar>dp_percentage_of_traffic (mobileData (deviceData_double marketingData))
         + dp_percentage_of_traffic (desktopData (deviceData_double marketingData)) - 100\<bar>
        \<le> 400 / 2 ^ 53) \<and>
   (dp_impressions (mobileData (deviceData_double marketingData))
        + dp_impressions (desktopData (deviceData_double marketingData)) = 0 \<longrightarrow>
      dp_percentage_of_traffic (mobileData (deviceData_double marketingData)) = 0 \<and>
      dp_percentage_of_traffic (desktopData (deviceData_double marketingData)) = 0)"
proof -
  have e: "deviceData_double marketingData = emptyDeviceData \<or>
           (\<exists>st. deviceData_double marketingData = device_finish_double st)"
    by (auto simp: deviceData_double_def split: option.splits)
  then show ?thesis
  proof
    assume "deviceData_double marketingData = emptyDeviceData"
    then show ?thesis by (simp add: emptyDeviceData_def emptyAgg_def)
  next
    assume "\<exists>st. deviceData_double marketingData = device_finish_double st"
    then obtain st where s: "deviceData_double marketingData = device_finish_double st" by blast
    show ?thesis
    proof (intro conjI impI)
      assume h: "whole_count (dp_impressions (mobileData (deviceData_double marketingData))) \<and>
        whole_count (dp_impressions (desktopData (deviceData_double marketingData))) \<and>
        0 < dp_impressions (mobileData (deviceData_double marketingData))
            + dp_impressions (desktopData (deviceData_double marketingData))"
      then have "0 \<le> dp_impressions (mobileData (device_finish_double st))"
        and "0 \<le> dp_impressions (desktopData (device_finish_double st))"
        and "0 < dp_impressions (mobileData (device_finish_double st))
            + dp_impressions (desktopData (device_finish_double st))"
        by (simp_all add: s whole_count_nonneg)
      then show "\<bar>dp_percentage_of_traffic (mobileData (deviceData_double marketingData))
         + dp_percentage_of_traffic (desktopData (deviceData_double marketingData)) - 100\<bar>
        \<le> 400 / 2 ^ 53"
        unfolding s by (rule device_finish_double_partition)
    next
      assume z: "dp_impressions (mobileData (deviceData_double marketingData))
        + dp_impressions (desktopData (deviceData_double marketingData)) = 0"
      have "dp_percentage_of_traffic (mobileData (device_finish_double st)) = 0 \<and>
         dp_percentage_of_traffic (desktopData (device_finish_double st)) = 0"
        using z by (simp only: s device_finish_double_impressions device_finish_double_traffic)
          (simp add: fl_zero)
      then show "dp_percentage_of_traffic (mobileData (deviceData_double marketingData)) = 0"
        and "dp_percentage_of_traffic (desktopData (deviceData_double marketingData)) = 0"
        by (simp_all only: s)
    qed
  qed
qed

theorem device_traffic_percentages_partition_rounded_witness:
  "whole_count (dp_impressions (mobileData (deviceData_double (Some \<lparr>campaigns = Some ex_device_cs\<rparr>)))) \<and>
   whole_count (dp_impressions (desktopData (deviceData_double (Some \<lparr>campaigns = Some ex_device_cs\<rparr>)))) \<and>
   0 < dp_impressions (mobileData (deviceData_double (Some \<lparr>campaigns = Some ex_device_cs\<rparr>)))
        + dp_impressions (desktopData (deviceData_double (Some \<lparr>campaigns = Some ex_device_cs\<rparr>))) \<and>
   \<bar>dp_percentage_of_traffic (mobileData (deviceData_double (Some \<lparr>campaigns = Some ex_device_cs\<rparr>)))
      + dp_percentage_of_traffic (desktopData (deviceData_double (Some \<lparr>campaigns = Some ex_device_cs\<rparr>)))
      - 100\<bar> \<le> 400 / 2 ^ 53 \<and>
   dp_impressions (mobileData (deviceData_double (Some \<lparr>campaigns = Some ex_no_traffic_cs\<rparr>)))
        + dp_impressions (desktopData (deviceData_double (Some \<lparr>campaigns = Some ex_no_traffic_cs\<rparr>))) = 0 \<and>
   dp_percentage_of_traffic (mobileData (deviceData_double (Some \<lparr>campaigns = Some ex_no_traffic_cs\<rparr>))) = 0 \<and>
   dp_percentage_of_traffic (desktopData (deviceData_double (Some \<lparr>campaigns = Some ex_no_traffic_cs\<rparr>))) = 0"
proof -
  let ?r = "deviceData_double (Some \<lparr>campaigns = Some ex_device_cs\<rparr>)"
  let ?z = "deviceData_double (Some \<lparr>campaigns = Some ex_no_traffic_cs\<rparr>)"
  have w1: "whole_count (dp_impressions (mobileData ?r))"
    by (simp only: deviceData_double_example) (simp add: whole_count_def)
  have w2: "whole_count (dp_impressions (desktopData ?r))"
    by (simp only: deviceData_double_example) (simp add: whole_count_def)
  have h1: "0 < dp_impressions (mobileData ?r) + dp_impressions (desktopData ?r)"
    by (simp add: deviceData_double_example)
  have h2: "dp_impressions (mobileData ?z) + dp_impressions (desktopData ?z) = 0"
    by (simp add: deviceData_double_def device_finish_double_impressions
        device_campaign_double_def device_step_double_def device_acc_double_def
        emptyDeviceData_def emptyAgg_def ex_no_traffic_cs_def ex_device_def campaign_with_def
        Let_def fl_zero)
  from device_traffic_percentages_partition_rounded [of "Some \<lparr>campaigns = Some ex_device_cs\<rparr>"]
    w1 w2 h1
  have a: "\<bar>dp_percentage_of_traffic (mobileData ?r) + dp_percentage_of_traffic (desktopData ?r)
      - 100\<bar> \<le> 400 / 2 ^ 53"
    by blast
  from device_traffic_percentages_partition_rounded [of "Some \<lparr>campaigns = Some ex_no_traffic_cs\<rparr>"]
    h2
  have b: "dp_percentage_of_traffic (mobileData ?z) = 0 \<and> dp_percentage_of_traffic (desktopData ?z) = 0"
    by blast
  from w1 w2 h1 h2 a b show ?thesis by blast
qed

subsection \<open>Line chart scale\<close>

lemma Math_max_Max:
  assumes "vs \<noteq> []"
  shows "Math_max vs = Some (Max (set vs))"
proof (cases vs)
  case Nil
  with assms show ?thesis by simp
next
  case (Cons v ws)
  have "Max (set (v # ws)) = fold max ws v" by (rule Max.set_eq_fold)
  with Cons show ?thesis by simp
qed

lemma Math_min_Min:
  assumes "vs \<noteq> []"
  shows "Math_min vs = Some (Min (set vs))"
proof (cases vs)
  case Nil
  with assms show ?thesis by simp
next
  case (Cons v ws)
  have "Min (set (v # ws)) = fold min ws v" by (rule Min.set_eq_fold)
  with Cons show ?thesis by simp
qed

lemma allValues_nonempty:
  "series \<noteq> [] \<Longrightarrow> \<not> list_all (\<lambda>s. series_data s = []) series \<Longrightarrow> allValues series \<noteq> []"
  by (auto simp: allValues_def list_all_iff)

lemma chartScale_Some:
  assumes "series \<noteq> []" and "\<not> list_all (\<lambda>s. series_data s = []) series"
  shows "chartScale height series =
     Some \<lparr>maxValue = Max (set (allValues series)), minValue = Min (set (allValues series)),
           valueRange = Max (set (allValues series)) - Min (set (allValues series)),
           padding = (Max (set (allValues series)) - Min (set (allValues series))) * (1 / 10),
           chartMin = max 0 (Min (set (allValues series))
                        - (Max (set (allValues series)) - Min (set (allValues series))) * (1 / 10)),
           chartMax = Max (set (allValues series))
                        + (Max (set (allValues series)) - Min (set (allValues series))) * (1 / 10),
           chartRange = Max (set (allValues series))
                        + (Max (set (allValues series)) - Min (set (allValues series))) * (1 / 10)
                        - max 0 (Min (set (allValues series))
                        - (Max (set (allValues series)) - Min (set (allValues series))) * (1 / 10)),
           chartHeight = height - 80\<rparr>"
  using assms allValues_nonempty [OF assms]
  by (simp add: chartScale_def Math_max_Max Math_min_Min Let_def)

lemma chartScale_None:
  "series = [] \<or> list_all (\<lambda>s. series_data s = []) series \<Longrightarrow> chartScale height series = None"
  by (auto simp: chartScale_def)

lemma chartScale_fields:
  assumes "chartScale height series = Some sc"
  shows "series \<noteq> [] \<and> \<not> list_all (\<lambda>s. series_data s = []) series \<and> allValues series \<noteq> [] \<and>
         minValue sc = Min (set (allValues series)) \<and>
         maxValue sc = Max (set (allValues series)) \<and>
         chartMax sc = maxValue sc + (1 / 10) * (maxValue sc - minValue sc) \<and>
         chartMin sc = max 0 (minValue sc - (1 / 10) * (maxValue sc - minValue sc)) \<and>
         chartRange sc = chartMax sc - chartMin sc \<and>
         chartHeight sc = height - 80"
proof -
  from assms have ne: "series \<noteq> []" "\<not> list_all (\<lambda>s. series_data s = []) series"
    using chartScale_None [of series height] by auto
  from chartScale_Some [OF ne, of height] assms allValues_nonempty [OF ne] ne
  show ?thesis by auto
qed

lemma all_equal_Min_Max:
  assumes "vs \<noteq> []" and "\<forall>x \<in> set vs. x = (c::real)"
  shows "Min (set vs) = c \<and> Max (set vs) = c"
proof -
  from assms have "set vs = {c}" by (cases vs) auto
  then show ?thesis by simp
qed

lemma getYPosition_mid: "chartRange sc = 0 \<Longrightarrow> getYPosition sc v = chartHeight sc / 2"
  by (simp add: getYPosition_def)

text \<open>
  The claim as written gives the plot domain the lower bound \<open>min - 0.1 * (max - min)\<close>.
  For one series with the values 2 and 102 that would be \<open>-8\<close>; the code computes
  \<open>Math.max(0, minValue - padding)\<close>, which is 0.
\<close>

theorem line_chart_domain_counterexample:
  "map_option (\<lambda>sc. (minValue sc, maxValue sc, chartMin sc, chartMax sc))
     (chartScale 300 [ex_series [2, 102]]) = Some (2, 102, 0, 112) \<and>
   (0::real) \<noteq> 2 - (1 / 10) * (102 - 2)"
  by (simp add: chartScale_def allValues_def ex_series_def Let_def)

text \<open>
  Claim C6, as amended.  For every non-empty line-chart input the value domain is the
  minimum and the maximum over every value of every series.  The upper bound of the plot
  domain is \<open>max + 0.1 * (max - min)\<close>; the lower bound is
  \<open>min - 0.1 * (max - min)\<close> clamped at 0 from below, so it is the symmetric padding
  only when that value is not negative.  When the plot domain is degenerate
  (\<open>chartMax = chartMin\<close>, which is the case when all values are equal and not
  negative) every point maps to the vertical midpoint; otherwise the position is computed
  with the non-zero divisor \<open>chartMax - chartMin\<close>.
\<close>

theorem line_chart_domain_clamped_at_zero:
  "(series \<noteq> [] \<and> \<not> list_all (\<lambda>s. series_data s = []) series \<longrightarrow>
      (\<exists>sc. chartScale height series = Some sc)) \<and>
   (chartScale height series = Some sc \<longrightarrow>
      allValues series \<noteq> [] \<and>
      minValue sc = Min (set (allValues series)) \<and>
      maxValue sc = Max (set (allValues series)) \<and>
      chartMax sc = maxValue sc + (1 / 10) * (maxValue sc - minValue sc) \<and>
      chartMin sc = max 0 (minValue sc - (1 / 10) * (maxValue sc - minValue sc)) \<and>
      (0 \<le> minValue sc - (1 / 10) * (maxValue sc - minValue sc) \<longrightarrow>
         chartMin sc = minValue sc - (1 / 10) * (maxValue sc - minValue sc)) \<and>
      (chartMax sc = chartMin sc \<longrightarrow> getYPosition sc v = chartHeight sc / 2) \<and>
      (chartMax sc \<noteq> chartMin sc \<longrightarrow>
         chartRange sc \<noteq> 0 \<and>
         getYPosition sc v
           = chartHeight sc - (v - chartMin sc) / (chartMax sc - chartMin sc) * chartHeight sc) \<and>
      ((\<forall>x \<in> set (allValues series). x = c) \<and> 0 \<le> c \<longrightarrow>
         getYPosition sc v = chartHeight sc / 2))"
proof (intro conjI impI)
  assume "series \<noteq> [] \<and> \<not> list_all (\<lambda>s. series_data s = []) series"
  then show "\<exists>sc. chartScale height series = Some sc"
    using chartScale_Some [of series height] by blast
next
  assume a: "chartScale height series = Some sc"
  note f = chartScale_fields [OF a]
  from f show "allValues series \<noteq> []" by blast
  from f show "minValue sc = Min (set (allValues series))" by blast
  from f show "maxValue sc = Max (set (allValues series))" by blast
  from f show "chartMax sc = maxValue sc + (1 / 10) * (maxValue sc - minValue sc)" by blast
  from f show "chartMin sc = max 0 (minValue sc - (1 / 10) * (maxValue sc - minValue sc))" by blast
  { assume "0 \<le> minValue sc - (1 / 10) * (maxValue sc - minValue sc)"
    moreover from f have "chartMin sc = max 0 (minValue sc - (1 / 10) * (maxValue sc - minValue sc))"
      by blast
    ultimately show "chartMin sc = minValue sc - (1 / 10) * (maxValue sc - minValue sc)"
      by (simp add: max_def) }
  { assume "chartMax sc = chartMin sc"
    with f have "chartRange sc = 0" by simp
    then show "getYPosition sc v = chartHeight sc / 2" by (rule getYPosition_mid) }
  { assume n: "chartMax sc \<noteq> chartMin sc"
    with f show r: "chartRange sc \<noteq> 0" by simp
    from f have "chartRange sc = chartMax sc - chartMin sc" by blast
    with r show "getYPosition sc v
           = chartHeight sc - (v - chartMin sc) / (chartMax sc - chartMin sc) * chartHeight sc"
      by (simp add: getYPosition_def) }
  { assume e: "(\<forall>x \<in> set (allValues series). x = c) \<and> 0 \<le> c"
    from f have ne: "allValues series \<noteq> []" by blast
    from all_equal_Min_Max [OF ne] e have "Min (set (allValues series)) = c \<and> Max (set (allValues series)) = c"
      by blast
    with f e have "chartRange sc = 0" by simp
    then show "getYPosition sc v = chartHeight sc / 2" by (rule getYPosition_mid) }
qed

theorem line_chart_domain_clamped_at_zero_witness:
  "[ex_series [2, 102]] \<noteq> [] \<and>
   \<not> list_all (\<lambda>s. series_data s = []) [ex_series [2, 102]] \<and>
   (\<exists>sc. chartScale 300 [ex_series [2, 102]] = Some sc \<and>
      minValue sc = 2 \<and> maxValue sc = 102 \<and> chartMin sc = 0 \<and> chartMax sc = 112 \<and>
      getYPosition sc 56 = 110) \<and>
   (\<exists>sc. chartScale 300 [ex_series [5, 5], ex_series [5]] = Some sc \<and>
      chartMin sc = 5 \<and> chartMax sc = 5 \<and> getYPosition sc 5 = 110)"
proof -
  let ?s = "[ex_series [2, 102]]"
  let ?d = "[ex_series [5, 5], ex_series [5]]"
  have h1: "?s \<noteq> [] \<and> \<not> list_all (\<lambda>s. series_data s = []) ?s"
    by (simp add: ex_series_def)
  have h2: "?d \<noteq> [] \<and> \<not> list_all (\<lambda>s. series_data s = []) ?d"
    by (simp add: ex_series_def)
  have v1: "set (allValues ?s) = {2, 102}" by (auto simp: allValues_def ex_series_def)
  have v2: "set (allValues ?d) = {5}" by (auto simp: allValues_def ex_series_def)
  from line_chart_domain_clamped_at_zero [where series = ?s and height = 300] h1
  obtain sc where sc: "chartScale 300 ?s = Some sc" by blast
  note t = line_chart_domain_clamped_at_zero
    [where series = ?s and height = 300 and sc = sc and v = 56 and c = 0]
  from t sc have m: "minValue sc = 2 \<and> maxValue sc = 102" by (simp add: v1)
  from t sc m have b: "chartMin sc = 0 \<and> chartMax sc = 112" by simp
  from chartScale_fields [OF sc] have "chartHeight sc = 220" by simp
  with t sc b have y: "getYPosition sc 56 = 110" by simp
  from line_chart_domain_clamped_at_zero [where series = ?d and height = 300] h2
  obtain sd where sd: "chartScale 300 ?d = Some sd" by blast
  note u = line_chart_domain_clamped_at_zero
    [where series = ?d and height = 300 and sc = sd and v = 5 and c = 5]
  from u sd have m': "minValue sd = 5 \<and> maxValue sd = 5" by (simp add: v2)
  from u sd m' have b': "chartMin sd = 5 \<and> chartMax sd = 5" by simp
  from chartScale_fields [OF sd] have hd: "chartHeight sd = 220" by simp
  from u sd have "getYPosition sd 5 = chartHeight sd / 2" by (simp add: v2)
  with hd have y': "getYPosition sd 5 = 110" by simp
  from h1 sc m b y sd b' y' show ?thesis by blast
qed

subsection \<open>Bubble map sizes\<close>

lemma enrich_fields [simp]:
  "bm_region (enrich mn mx d) = bm_region d"
  "bm_country (enrich mn mx d) = bm_country d"
  "bm_value (enrich mn mx d) = bm_value d"
  "bm_size (enrich mn mx d) = bubble_radius mn mx (bm_value d)"
  by (simp_all add: enrich_def Let_def normalizedValue_def bubble_radius_def)

lemma enrichedData_nonempty:
  assumes "data \<noteq> []"
  shows "enrichedData data =
     sort_key (\<lambda>e. - bm_size e)
       (map (enrich (Min (set (map bm_value data))) (Max (set (map bm_value data)))) data)"
proof -
  from assms have "map bm_value data \<noteq> []" by simp
  then have "Math_max (map bm_value data) = Some (Max (set (map bm_value data)))"
    and "Math_min (map bm_value data) = Some (Min (set (map bm_value data)))"
    by (rule Math_max_Max, rule Math_min_Min)
  with assms show ?thesis by (simp add: enrichedData_def)
qed

lemma bubble_radius_area:
  assumes "mn \<le> v" and "mn < mx"
  shows "((bubble_radius mn mx v - 8) / 24)\<^sup>2 = (v - mn) / (mx - mn)"
proof -
  from assms have "0 \<le> (v - mn) / (mx - mn)" by simp
  then have "(sqrt ((v - mn) / (mx - mn)))\<^sup>2 = (v - mn) / (mx - mn)" by (rule real_sqrt_pow2)
  with assms show ?thesis by (simp add: bubble_radius_def)
qed

lemma enriched_points:
  assumes "data \<noteq> []"
  shows "length (enrichedData data) = length data"
    and "e \<in> set (enrichedData data) \<Longrightarrow>
           bm_value e \<in> set (map bm_value data) \<and>
           bm_size e = bubble_radius (Min (set (map bm_value data))) (Max (set (map bm_value data)))
                         (bm_value e)"
    and "d \<in> set data \<Longrightarrow>
           \<exists>e \<in> set (enrichedData data). bm_region e = bm_region d \<and> bm_country e = bm_country d \<and>
             bm_value e = bm_value d \<and>
             bm_size e = bubble_radius (Min (set (map bm_value data))) (Max (set (map bm_value data)))
                           (bm_value d)"
proof -
  note e = enrichedData_nonempty [OF assms]
  show "length (enrichedData data) = length data" by (simp add: e)
  { assume "e \<in> set (enrichedData data)"
    then show "bm_value e \<in> set (map bm_value data) \<and>
           bm_size e = bubble_radius (Min (set (map bm_value data))) (Max (set (map bm_value data)))
                         (bm_value e)"
      by (auto simp: e) }
  { assume "d \<in> set data"
    then have "enrich (Min (set (map bm_value data))) (Max (set (map bm_value data))) d
                 \<in> set (enrichedData data)"
      by (simp add: e)
    then show "\<exists>e \<in> set (enrichedData data). bm_region e = bm_region d \<and> bm_country e = bm_country d \<and>
             bm_value e = bm_value d \<and>
             bm_size e = bubble_radius (Min (set (map bm_value data))) (Max (set (map bm_value data)))
                           (bm_value d)"
      by (rule rev_bexI) simp }
qed

lemma sublinear_example:
  "8 + (40 - 10) / (90 - 10) * 24 < bubble_radius 10 90 (40::real)"
proof -
  have "(3 / 8 :: real)\<^sup>2 < 3 / 8" by (simp add: power2_eq_square)
  then have "(3 / 8 :: real) < sqrt (3 / 8)" by (rule real_less_rsqrt)
  then show ?thesis by (simp add: bubble_radius_def)
qed

text \<open>
  Claim C7.  For every non-empty batch, with \<open>min\<close> and \<open>max\<close> the minimum and maximum
  of its values, every point gets the radius
  \<open>8 + sqrt ((value - min) / (max - min)) * 24\<close>, and the midpoint radius 20 when
  \<open>max = min\<close> (a single point included).  The result has one bubble per input point.
  When \<open>max \<noteq> min\<close> the square of the radius' position in the radius range is the
  value's position in the value range, so area and not radius is linear in the value.
  In the batch 10, 40, 90 the radius of 40 is \<open>8 + sqrt ((40 - 10) / (90 - 10)) * 24\<close>,
  above the linear interpolation \<open>8 + (40 - 10) / (90 - 10) * 24\<close>.
\<close>

theorem bubble_radius_square_root_scaling:
  "(data \<noteq> [] \<longrightarrow>
      length (enrichedData data) = length data \<and>
      (\<forall>e \<in> set (enrichedData data).
         bm_size e = bubble_radius (Min (set (map bm_value data))) (Max (set (map bm_value data)))
                       (bm_value e)) \<and>
      (\<forall>d \<in> set data. \<exists>e \<in> set (enrichedData data).
         bm_region e = bm_region d \<and> bm_country e = bm_country d \<and> bm_value e = bm_value d \<and>
         bm_size e = bubble_radius (Min (set (map bm_value data))) (Max (set (map bm_value data)))
                       (bm_value d)) \<and>
      (Max (set (map bm_value data)) \<noteq> Min (set (map bm_value data)) \<longrightarrow>
         (\<forall>e \<in> set (enrichedData data).
            ((bm_size e - 8) / 24)\<^sup>2
              = (bm_value e - Min (set (map bm_value data)))
                  / (Max (set (map bm_value data)) - Min (set (map bm_value data))))) \<and>
      (Max (set (map bm_value data)) = Min (set (map bm_value data)) \<longrightarrow>
         (\<forall>e \<in> set (enrichedData data). bm_size e = 20))) \<and>
   bubble_radius mn mx v = (if mx = mn then 20 else 8 + sqrt ((v - mn) / (mx - mn)) * 24) \<and>
   map bm_size (enrichedData [p]) = [20] \<and>
   (\<exists>e \<in> set (enrichedData ex_bubbles).
      bm_value e = 40 \<and> bm_size e = 8 + sqrt ((40 - 10) / (90 - 10)) * 24) \<and>
   8 + (40 - 10) / (90 - 10) * 24 < 8 + sqrt ((40 - 10) / (90 - 10)) * (24::real)"
proof (intro conjI impI ballI)
  assume ne: "data \<noteq> []"
  show "length (enrichedData data) = length data" by (rule enriched_points(1) [OF ne])
next
  fix e assume "data \<noteq> []" and "e \<in> set (enrichedData data)"
  then show "bm_size e = bubble_radius (Min (set (map bm_value data)))
      (Max (set (map bm_value data))) (bm_value e)"
    using enriched_points(2) by blast
next
  fix d assume "data \<noteq> []" and "d \<in> set data"
  then show "\<exists>e \<in> set (enrichedData data).
         bm_region e = bm_region d \<and> bm_country e = bm_country d \<and> bm_value e = bm_value d \<and>
         bm_size e = bubble_radius (Min (set (map bm_value data))) (Max (set (map bm_value data)))
                       (bm_value d)"
    by (rule enriched_points(3))
next
  fix e assume ne: "data \<noteq> []" and d: "Max (set (map bm_value data)) \<noteq> Min (set (map bm_value data))"
    and e: "e \<in> set (enrichedData data)"
  from enriched_points(2) [OF ne e] have m: "bm_value e \<in> set (map bm_value data)"
    and s: "bm_size e = bubble_radius (Min (set (map bm_value data)))
      (Max (set (map bm_value data))) (bm_value e)" by blast+
  from m have lo: "Min (set (map bm_value data)) \<le> bm_value e" by simp
  from m have "Min (set (map bm_value data)) \<le> Max (set (map bm_value data))"
    by (meson List.finite_set Max_ge Min_le order_trans)
  with d have "Min (set (map bm_value data)) < Max (set (map bm_value data))" by simp
  from bubble_radius_area [OF lo this] show "((bm_size e - 8) / 24)\<^sup>2
              = (bm_value e - Min (set (map bm_value data)))
                  / (Max (set (map bm_value data)) - Min (set (map bm_value data)))"
    by (simp only: s)
next
  fix e assume ne: "data \<noteq> []" and d: "Max (set (map bm_value data)) = Min (set (map bm_value data))"
    and e: "e \<in> set (enrichedData data)"
  from enriched_points(2) [OF ne e] d show "bm_size e = 20" by (simp add: bubble_radius_def)
next
  show "bubble_radius mn mx v = (if mx = mn then 20 else 8 + sqrt ((v - mn) / (mx - mn)) * 24)"
    by (simp add: bubble_radius_def)
next
  show "map bm_size (enrichedData [p]) = [20]"
    by (simp add: enrichedData_def enrich_def normalizedValue_def Let_def)
next
  have ne: "ex_bubbles \<noteq> []" by (simp add: ex_bubbles_def)
  have "bm_value ` set ex_bubbles = {10, 40, 90}"
    by (auto simp: ex_bubbles_def ex_bubble_def)
  then have v: "Min (bm_value ` set ex_bubbles) = 10" "Max (bm_value ` set ex_bubbles) = 90"
    by simp_all
  have "ex_bubble ''Sharjah'' 40 \<in> set ex_bubbles" by (simp add: ex_bubbles_def)
  from enriched_points(3) [OF ne this] obtain e where
    "e \<in> set (enrichedData ex_bubbles)" "bm_value e = 40"
    "bm_size e = bubble_radius 10 90 40"
    by (auto simp: v ex_bubble_def)
  then show "\<exists>e \<in> set (enrichedData ex_bubbles).
      bm_value e = 40 \<and> bm_size e = 8 + sqrt ((40 - 10) / (90 - 10)) * 24"
    by (auto simp: bubble_radius_def)
next
  from sublinear_example show "8 + (40 - 10) / (90 - 10) * 24 < 8 + sqrt ((40 - 10) / (90 - 10)) * (24::real)"
    by (simp add: bubble_radius_def)
qed

theorem bubble_radius_square_root_scaling_witness:
  "ex_bubbles \<noteq> [] \<and>
   Max (set (map bm_value ex_bubbles)) \<noteq> Min (set (map bm_value ex_bubbles)) \<and>
   length (enrichedData ex_bubbles) = 3 \<and>
   (\<exists>e \<in> set (enrichedData ex_bubbles). bm_region e = ''Ajman'' \<and> bm_value e = 90 \<and> bm_size e = 32) \<and>
   (\<exists>e \<in> set (enrichedData ex_bubbles). bm_region e = ''Dubai'' \<and> bm_value e = 10 \<and> bm_size e = 8) \<and>
   (\<exists>e \<in> set (enrichedData ex_bubbles). bm_region e = ''Sharjah'' \<and> bm_value e = 40 \<and>
      bm_size e = 8 + sqrt (3 / 8) * 24 \<and> ((bm_size e - 8) / 24)\<^sup>2 = 3 / 8) \<and>
   [ex_bubble ''Dubai'' 7, ex_bubble ''Ajman'' 7] \<noteq> [] \<and>
   Max (set (map bm_value [ex_bubble ''Dubai'' 7, ex_bubble ''Ajman'' 7]))
     = Min (set (map bm_value [ex_bubble ''Dubai'' 7, ex_bubble ''Ajman'' 7])) \<and>
   bm_size (hd (enrichedData [ex_bubble ''Dubai'' 7, ex_bubble ''Ajman'' 7])) = 20"
proof -
  let ?same = "[ex_bubble ''Dubai'' 7, ex_bubble ''Ajman'' 7]"
  have ne: "ex_bubbles \<noteq> []" by (simp add: ex_bubbles_def)
  have "bm_value ` set ex_bubbles = {10, 40, 90}"
    by (auto simp: ex_bubbles_def ex_bubble_def)
  then have v: "Min (set (map bm_value ex_bubbles)) = 10" "Max (set (map bm_value ex_bubbles)) = 90"
    by simp_all
  then have d: "Max (set (map bm_value ex_bubbles)) \<noteq> Min (set (map bm_value ex_bubbles))"
    by simp
  note t = bubble_radius_square_root_scaling
    [where data = ex_bubbles and mn = 10 and mx = 90 and v = 40 and p = "ex_bubble ''Dubai'' 7"]
  from t ne have "length (enrichedData ex_bubbles) = length ex_bubbles" by blast
  then have l: "length (enrichedData ex_bubbles) = 3" by (simp add: ex_bubbles_def)
  have m: "ex_bubble ''Ajman'' 90 \<in> set ex_bubbles" "ex_bubble ''Dubai'' 10 \<in> set ex_bubbles"
    "ex_bubble ''Sharjah'' 40 \<in> set ex_bubbles"
    by (simp_all add: ex_bubbles_def)
  from t ne have "\<forall>d \<in> set ex_bubbles. \<exists>e \<in> set (enrichedData ex_bubbles).
         bm_region e = bm_region d \<and> bm_country e = bm_country d \<and> bm_value e = bm_value d \<and>
         bm_size e = bubble_radius (Min (set (map bm_value ex_bubbles)))
                       (Max (set (map bm_value ex_bubbles))) (bm_value d)"
    by blast
  then have all: "\<forall>d \<in> set ex_bubbles. \<exists>e \<in> set (enrichedData ex_bubbles).
         bm_region e = bm_region d \<and> bm_country e = bm_country d \<and> bm_value e = bm_value d \<and>
         bm_size e = bubble_radius 10 90 (bm_value d)"
    by (simp only: v)
  from all m(1) have a: "\<exists>e \<in> set (enrichedData ex_bubbles).
      bm_region e = ''Ajman'' \<and> bm_value e = 90 \<and> bm_size e = 32"
    by (fastforce simp: ex_bubble_def bubble_radius_def)
  from all m(2) have b: "\<exists>e \<in> set (enrichedData ex_bubbles).
      bm_region e = ''Dubai'' \<and> bm_value e = 10 \<and> bm_size e = 8"
    by (fastforce simp: ex_bubble_def bubble_radius_def)
  from all m(3) obtain e where e: "e \<in> set (enrichedData ex_bubbles)" "bm_region e = ''Sharjah''"
    "bm_value e = 40" "bm_size e = 8 + sqrt (3 / 8) * 24"
    by (fastforce simp: ex_bubble_def bubble_radius_def)
  from t ne d e(1) have "((bm_size e - 8) / 24)\<^sup>2
        = (bm_value e - Min (set (map bm_value ex_bubbles)))
            / (Max (set (map bm_value ex_bubbles)) - Min (set (map bm_value ex_bubbles)))"
    by blast
  then have "((bm_size e - 8) / 24)\<^sup>2 = 3 / 8" by (simp only: v e(3)) simp
  with e have c: "\<exists>e \<in> set (enrichedData ex_bubbles). bm_region e = ''Sharjah'' \<and> bm_value e = 40 \<and>
      bm_size e = 8 + sqrt (3 / 8) * 24 \<and> ((bm_size e - 8) / 24)\<^sup>2 = 3 / 8"
    by blast
  have ne': "?same \<noteq> []" by simp
  have eq: "Max (set (map bm_value ?same)) = Min (set (map bm_value ?same))"
    by (simp add: ex_bubble_def)
  note u = bubble_radius_square_root_scaling
    [where data = ?same and mn = 10 and mx = 90 and v = 40 and p = "ex_bubble ''Dubai'' 7"]
  from u ne' have "length (enrichedData ?same) = length ?same" by blast
  then have "enrichedData ?same \<noteq> []" by auto
  then have "hd (enrichedData ?same) \<in> set (enrichedData ?same)" by simp
  with u ne' eq have s: "bm_size (hd (enrichedData ?same)) = 20" by blast
  from ne d l a b c ne' eq s show ?thesis by blast
qed

subsection \<open>Guards of the derived rates\<close>

lemma region_merge_checked_ok: "region_merge_checked e r = Some (region_merge e r)"
  by (simp add: region_merge_checked_def region_merge_def js_div_def Let_def)

lemma device_row_checked_ok: "device_row_checked c d = Some (device_row c d)"
  by (simp add: device_row_checked_def device_row_def js_div_def)

lemma device_finish_checked_ok: "device_finish_checked st = Some (device_finish st)"
  by (simp add: device_finish_checked_def device_finish_def js_div_def Let_def)

lemma region_merge_zero_guarded: "region_rates_zero_guarded (region_merge e r)"
  using region_merge_rates [of e r]
  by (simp add: region_rates_zero_guarded_def rates_recomputed_def)

lemma device_finish_zero_guarded: "device_rates_zero_guarded (device_finish st)"
  using device_finish_no_traffic [of st] device_finish_rates [of st]
  by (simp add: device_rates_zero_guarded_def device_rates_recomputed_def)

lemma deviceData_zero_guarded: "device_rates_zero_guarded (deviceData marketingData)"
proof -
  have "device_rates_zero_guarded emptyDeviceData"
    by (simp add: device_rates_zero_guarded_def emptyDeviceData_def emptyAgg_def)
  then show ?thesis
    by (cases marketingData; cases "campaigns (the marketingData)")
       (simp_all add: deviceData_def device_finish_zero_guarded)
qed

lemma regionalData_zero_guarded:
  assumes "campaigns md = Some cs" and "x \<in> set (regionalData (Some md))"
    and "1 < length (region_group (rp_region x) cs)"
  shows "region_rates_zero_guarded x"
proof -
  from regional_entries [OF assms(1,2)] assms(3) have "rates_recomputed x" by blast
  then show ?thesis by (simp add: region_rates_zero_guarded_def rates_recomputed_def)
qed

text \<open>
  Claim C8.  Every derived rate of the rollups and of the detail rows is guarded: the
  recomputed \<open>ctr\<close>, \<open>conversion_rate\<close>, \<open>cpc\<close>, \<open>cpa\<close> and \<open>roas\<close> of a regional
  merge, the \<open>ctr\<close>, \<open>conversion_rate\<close> and \<open>percentage_of_traffic\<close> of the two
  device buckets, and the \<open>roas\<close> of a device row, of a weekly row and of a device
  bucket are 0 when their denominator is 0.  No division by zero is executed: each of
  these computations, written with the checked division, returns a result, and it is the
  result of the unchecked function.  The demographic rollup, whose only division is by
  the constant 100, returns a result on every input.
\<close>

theorem derived_rates_guarded_against_zero:
  "region_merge_checked e r = Some (region_merge e r) \<and>
   region_rates_zero_guarded (region_merge e r) \<and>
   (campaigns md = Some cs \<longrightarrow>
      (\<forall>x \<in> set (regionalData (Some md)).
         1 < length (region_group (rp_region x) cs) \<longrightarrow> region_rates_zero_guarded x)) \<and>
   device_finish_checked st = Some (device_finish st) \<and>
   device_rates_zero_guarded (deviceData marketingData) \<and>
   device_row_checked c d = Some (device_row c d) \<and>
   (dp_spend d = 0 \<longrightarrow> cdb_roas (device_row c d) = 0) \<and>
   week_row_roas_checked w = Some (week_row_roas w) \<and>
   (wp_spend w = 0 \<longrightarrow> week_row_roas w = 0) \<and>
   bucket_roas_checked a = Some (bucket_roas a) \<and>
   (dp_spend a = 0 \<longrightarrow> bucket_roas a = 0) \<and>
   (\<exists>y. demographicData marketingData = Some y)"
proof (intro conjI impI ballI)
  show "region_merge_checked e r = Some (region_merge e r)" by (rule region_merge_checked_ok)
  show "region_rates_zero_guarded (region_merge e r)" by (rule region_merge_zero_guarded)
  show "device_finish_checked st = Some (device_finish st)" by (rule device_finish_checked_ok)
  show "device_rates_zero_guarded (deviceData marketingData)" by (rule deviceData_zero_guarded)
  show "device_row_checked c d = Some (device_row c d)" by (rule device_row_checked_ok)
  show "week_row_roas_checked w = Some (week_row_roas w)"
    by (simp add: week_row_roas_checked_def week_row_roas_def js_div_def)
  show "bucket_roas_checked a = Some (bucket_roas a)"
    by (simp add: bucket_roas_checked_def bucket_roas_def js_div_def)
  show "\<exists>y. demographicData marketingData = Some y" by (rule demographicData_total)
next
  fix x assume "campaigns md = Some cs" "x \<in> set (regionalData (Some md))"
    "1 < length (region_group (rp_region x) cs)"
  then show "region_rates_zero_guarded x" by (rule regionalData_zero_guarded)
next
  assume "dp_spend d = 0" then show "cdb_roas (device_row c d) = 0" by (simp add: device_row_def)
next
  assume "wp_spend w = 0" then show "week_row_roas w = 0" by (simp add: week_row_roas_def)
next
  assume "dp_spend a = 0" then show "bucket_roas a = 0" by (simp add: bucket_roas_def)
qed

theorem derived_rates_guarded_against_zero_witness:
  "rp_impressions (region_merge ex_zero_region ex_zero_region) = 0 \<and>
   rp_clicks (region_merge ex_zero_region ex_zero_region) = 0 \<and>
   rp_conversions (region_merge ex_zero_region ex_zero_region) = 0 \<and>
   rp_spend (region_merge ex_zero_region ex_zero_region) = 0 \<and>
   region_merge_checked ex_zero_region ex_zero_region
     = Some (region_merge ex_zero_region ex_zero_region) \<and>
   rp_ctr (region_merge ex_zero_region ex_zero_region) = 0 \<and>
   rp_conversion_rate (region_merge ex_zero_region ex_zero_region) = 0 \<and>
   rp_cpc (region_merge ex_zero_region ex_zero_region) = 0 \<and>
   rp_cpa (region_merge ex_zero_region ex_zero_region) = 0 \<and>
   rp_roas (region_merge ex_zero_region ex_zero_region) = 0 \<and>
   dp_spend (emptyAgg ''Mobile'') = 0 \<and>
   cdb_roas (device_row (campaign_with ''A'' 0 0) (emptyAgg ''Mobile'')) = 0 \<and>
   bucket_roas (emptyAgg ''Mobile'') = 0"
proof -
  let ?x = "region_merge ex_zero_region ex_zero_region"
  note t = derived_rates_guarded_against_zero
    [where e = ex_zero_region and r = ex_zero_region and d = "emptyAgg ''Mobile''"
       and c = "campaign_with ''A'' 0 0" and a = "emptyAgg ''Mobile''"]
  have z: "rp_impressions ?x = 0 \<and> rp_clicks ?x = 0 \<and> rp_conversions ?x = 0 \<and> rp_spend ?x = 0"
    by (simp add: ex_zero_region_def)
  from t have g: "region_rates_zero_guarded ?x" by blast
  with z have r: "rp_ctr ?x = 0 \<and> rp_conversion_rate ?x = 0 \<and> rp_cpc ?x = 0 \<and> rp_cpa ?x = 0 \<and>
      rp_roas ?x = 0"
    by (simp add: region_rates_zero_guarded_def)
  from t have k: "region_merge_checked ex_zero_region ex_zero_region = Some ?x" by blast
  have s: "dp_spend (emptyAgg ''Mobile'') = 0" by (simp add: emptyAgg_def)
  with t have d: "cdb_roas (device_row (campaign_with ''A'' 0 0) (emptyAgg ''Mobile'')) = 0 \<and>
      bucket_roas (emptyAgg ''Mobile'') = 0" by blast
  from z k r s d show ?thesis by blast
qed

subsection \<open>The input store is left unchanged\<close>

lemma update_absent: "k \<notin> fst ` set al \<Longrightarrow> AList.update k v al = al @ [(k, v)]"
  by (induction al) auto

lemma map_of_deref: "map_of (map (\<lambda>(k, e). (k, h ! e)) m) k = map_option (\<lambda>e. h ! e) (map_of m k)"
  by (induction m) auto

lemma input_object:
  assumes "store_inv h0 (h, m)" and "a < length h0"
  shows "h ! a = h0 ! a"
proof -
  from assms(1) have "take (length h0) h = h0" by (simp add: store_inv_def)
  then have "h0 ! a = take (length h0) h ! a" by simp
  also have "\<dots> = h ! a" using assms(2) by simp
  finally show ?thesis by simp
qed

lemma deref_overwrite:
  assumes "map_of m k = Some e" and "distinct (map snd m)"
    and "\<forall>e' \<in> set (map snd m). e' < length h"
  shows "map (\<lambda>(k, e'). (k, h[e := v] ! e')) m = AList.update k v (map (\<lambda>(k, e'). (k, h ! e')) m)"
  using assms
proof (induction m)
  case Nil
  then show ?case by simp
next
  case (Cons p m)
  obtain k' e' where p: "p = (k', e')" by (cases p)
  show ?case
  proof (cases "k' = k")
    case True
    with Cons.prems p have e: "e' = e" by simp
    from Cons.prems p e have "e \<notin> snd ` set m" by simp
    then have "map (\<lambda>(k, e'). (k, h[e := v] ! e')) m = map (\<lambda>(k, e'). (k, h ! e')) m"
      by (intro map_cong) (auto simp: image_iff)
    moreover from Cons.prems p e have "e < length h" by simp
    ultimately show ?thesis using True p e by simp
  next
    case False
    with Cons.prems p have m: "map_of m k = Some e" by simp
    then have "(k, e) \<in> set m" by (rule map_of_SomeD)
    then have "e \<in> snd ` set m" by (rule rev_image_eqI) simp
    with Cons.prems p have ne: "e' \<noteq> e" by auto
    from Cons.prems p have "distinct (map snd m)" "\<forall>e' \<in> set (map snd m). e' < length h"
      by simp_all
    from Cons.IH [OF m this] ne False p show ?thesis by simp
  qed
qed

lemma rollup_step_h_sound:
  assumes inv: "store_inv h0 s" and a: "a < length h0"
  shows "store_inv h0 (rollup_step_h key merge s a) \<and>
         deref_map (rollup_step_h key merge s a) = rollup_step key merge (deref_map s) (h0 ! a)"
proof -
  obtain h m where s: "s = (h, m)" by (cases s)
  from inv s have i: "length h0 \<le> length h" "take (length h0) h = h0"
    "\<forall>e \<in> set (map snd m). length h0 \<le> e \<and> e < length h" "distinct (map snd m)"
    by (simp_all add: store_inv_def)
  from inv s a have r: "h ! a = h0 ! a" by (simp add: input_object)
  show ?thesis
  proof (cases "map_of m (key (h0 ! a))")
    case None
    then have absent: "key (h0 ! a) \<notin> fst ` set m" by (simp add: map_of_eq_None_iff)
    have st: "rollup_step_h key merge s a = (h @ [h0 ! a], m @ [(key (h0 ! a), length h)])"
      by (simp add: rollup_step_h_def s r None update_absent [OF absent])
    have "map (\<lambda>(k, e). (k, (h @ [h0 ! a]) ! e)) m = map (\<lambda>(k, e). (k, h ! e)) m"
      using i(3) by (intro map_cong) (auto simp: nth_append)
    then have d: "deref_map (h @ [h0 ! a], m @ [(key (h0 ! a), length h)])
        = deref_map (h, m) @ [(key (h0 ! a), h0 ! a)]"
      by (simp add: deref_map_def)
    have absent': "key (h0 ! a) \<notin> fst ` set (deref_map (h, m))"
      using absent by (force simp: deref_map_def image_iff)
    have "map_of (deref_map (h, m)) (key (h0 ! a)) = None"
      by (simp add: deref_map_def map_of_deref None)
    then have p: "rollup_step key merge (deref_map (h, m)) (h0 ! a)
        = deref_map (h, m) @ [(key (h0 ! a), h0 ! a)]"
      by (simp add: rollup_step_def update_absent [OF absent'])
    have "store_inv h0 (h @ [h0 ! a], m @ [(key (h0 ! a), length h)])"
      using i by (auto simp: store_inv_def)
    with st d p s show ?thesis by simp
  next
    case (Some e)
    from Some have "(key (h0 ! a), e) \<in> set m" by (rule map_of_SomeD)
    then have "e \<in> set (map snd m)" by force
    with i(3) have e: "length h0 \<le> e" "e < length h" by auto
    have st: "rollup_step_h key merge s a = (h[e := merge (h ! e) (h0 ! a)], m)"
      by (simp add: rollup_step_h_def s r Some)
    have len: "\<forall>e' \<in> set (map snd m). e' < length h" using i(3) by auto
    have d: "deref_map (h[e := merge (h ! e) (h0 ! a)], m)
        = AList.update (key (h0 ! a)) (merge (h ! e) (h0 ! a)) (deref_map (h, m))"
      using deref_overwrite [OF Some i(4) len] by (simp add: deref_map_def)
    have "map_of (deref_map (h, m)) (key (h0 ! a)) = Some (h ! e)"
      by (simp add: deref_map_def map_of_deref Some)
    then have p: "rollup_step key merge (deref_map (h, m)) (h0 ! a)
        = AList.update (key (h0 ! a)) (merge (h ! e) (h0 ! a)) (deref_map (h, m))"
      by (simp add: rollup_step_def)
    have "take (length h0) (h[e := merge (h ! e) (h0 ! a)]) = h0"
      using e(1) i(2) by simp
    then have "store_inv h0 (h[e := merge (h ! e) (h0 ! a)], m)"
      using i by (simp add: store_inv_def)
    with st d p s show ?thesis by simp
  qed
qed

lemma rollup_fold_h_sound:
  assumes "store_inv h0 s" and "\<forall>a \<in> set as. a < length h0"
  shows "store_inv h0 (fold (\<lambda>a s. rollup_step_h key merge s a) as s) \<and>
         deref_map (fold (\<lambda>a s. rollup_step_h key merge s a) as s)
           = rollup key merge (map (\<lambda>a. h0 ! a) as) (deref_map s)"
  using assms
proof (induction as arbitrary: s)
  case Nil
  then show ?case by simp
next
  case (Cons a as)
  from Cons.prems have a: "a < length h0" and as: "\<forall>a \<in> set as. a < length h0" by simp_all
  from rollup_step_h_sound [OF Cons.prems(1) a, of key merge]
  have 1: "store_inv h0 (rollup_step_h key merge s a)"
    and 2: "deref_map (rollup_step_h key merge s a) = rollup_step key merge (deref_map s) (h0 ! a)"
    by simp_all
  from Cons.IH [OF 1 as] 2 show ?case by simp
qed

lemma week_step_h_rollup: "week_step_h s a = rollup_step_h wp_week_start week_merge s a"
  by (simp add: week_step_h_def rollup_step_h_def Let_def split: prod.splits)

lemma region_step_h_rollup: "region_step_h s a = rollup_step_h rp_region region_merge s a"
  by (simp add: region_step_h_def rollup_step_h_def Let_def split: prod.splits)

lemma fold_campaign_refs:
  assumes "\<And>cr s. step_c cr s = (case snd cr of None \<Rightarrow> s | Some as \<Rightarrow> fold step as s)"
  shows "fold step_c crs s = fold step (all_refs crs) s"
  by (induction crs arbitrary: s) (simp_all add: all_refs_def assms split: option.splits)

lemma all_refs_valid: "refs_valid h0 crs \<Longrightarrow> \<forall>a \<in> set (all_refs crs). a < length h0"
  by (auto simp: refs_valid_def all_refs_def split: option.splits)

lemma store_inv_init: "store_inv h0 (h0, [])"
  by (simp add: store_inv_def)

lemma all_weekly_view: "all_weekly (map (weekly_view h0) crs) = map (\<lambda>a. h0 ! a) (all_refs crs)"
  by (induction crs) (simp_all add: all_weekly_def all_refs_def weekly_view_def split: option.splits)

lemma all_regional_view: "all_regional (map (regional_view h0) crs) = map (\<lambda>a. h0 ! a) (all_refs crs)"
  by (induction crs) (simp_all add: all_regional_def all_refs_def regional_view_def split: option.splits)

lemma map_insort_key: "map g (insort_key (\<lambda>x. f (g x)) x xs) = insort_key f (g x) (map g xs)"
  by (induction xs) simp_all

lemma map_sort_key: "map g (sort_key (\<lambda>x. f (g x)) xs) = sort_key f (map g xs)"
  by (induction xs) (simp_all add: map_insort_key)

lemma map_snd_deref: "map (\<lambda>e. h ! e) (map snd m) = map snd (deref_map (h, m))"
  by (induction m) (auto simp: deref_map_def)

lemma weekly_store_run:
  assumes "refs_valid h0 crs"
  shows "store_inv h0 (fold week_campaign_h crs (h0, [])) \<and>
         deref_map (fold week_campaign_h crs (h0, [])) = weekMap_of (map (weekly_view h0) crs)"
proof -
  have f: "fold week_campaign_h crs (h0, [])
      = fold (\<lambda>a s. rollup_step_h wp_week_start week_merge s a) (all_refs crs) (h0, [])"
    by (subst fold_campaign_refs [where step = "\<lambda>a s. week_step_h s a"])
       (simp_all add: week_campaign_h_def week_step_h_rollup)
  from rollup_fold_h_sound [OF store_inv_init all_refs_valid [OF assms], of wp_week_start week_merge]
  show ?thesis
    by (simp add: f weekMap_of_rollup all_weekly_view deref_map_def)
qed

lemma regional_store_run:
  assumes "refs_valid h0 crs"
  shows "store_inv h0 (fold region_campaign_h crs (h0, [])) \<and>
         deref_map (fold region_campaign_h crs (h0, [])) = regionMap_of (map (regional_view h0) crs)"
proof -
  have f: "fold region_campaign_h crs (h0, [])
      = fold (\<lambda>a s. rollup_step_h rp_region region_merge s a) (all_refs crs) (h0, [])"
    by (subst fold_campaign_refs [where step = "\<lambda>a s. region_step_h s a"])
       (simp_all add: region_campaign_h_def region_step_h_rollup)
  from rollup_fold_h_sound [OF store_inv_init all_refs_valid [OF assms], of rp_region region_merge]
  show ?thesis
    by (simp add: f regionMap_of_rollup all_regional_view deref_map_def)
qed

lemma weeklyData_h_frame:
  assumes "refs_valid h0 crs"
  shows "take (length h0) (fst (weeklyData_h getTime h0 crs)) = h0 \<and>
         (\<forall>e \<in> set (snd (weeklyData_h getTime h0 crs)).
            length h0 \<le> e \<and> e < length (fst (weeklyData_h getTime h0 crs))) \<and>
         map (\<lambda>e. fst (weeklyData_h getTime h0 crs) ! e) (snd (weeklyData_h getTime h0 crs))
           = weeklyData getTime (Some \<lparr>campaigns = Some (map (weekly_view h0) crs)\<rparr>)"
proof -
  obtain h m where hm: "fold week_campaign_h crs (h0, []) = (h, m)"
    by (cases "fold week_campaign_h crs (h0, [])")
  from weekly_store_run [OF assms] hm
  have inv: "store_inv h0 (h, m)" and d: "deref_map (h, m) = weekMap_of (map (weekly_view h0) crs)"
    by simp_all
  have "map (\<lambda>e. h ! e) (sort_key (\<lambda>e. getTime (wp_week_start (h ! e))) (map snd m))
      = sort_key (\<lambda>w. getTime (wp_week_start w)) (map (\<lambda>e. h ! e) (map snd m))"
    by (rule map_sort_key)
  then have "map (\<lambda>e. h ! e) (sort_key (\<lambda>e. getTime (wp_week_start (h ! e))) (map snd m))
      = weeklyData getTime (Some \<lparr>campaigns = Some (map (weekly_view h0) crs)\<rparr>)"
    by (simp only: map_snd_deref d) (simp add: weeklyData_def)
  with inv show ?thesis
    by (simp add: weeklyData_h_def hm store_inv_def)
qed

lemma regionalData_h_frame:
  assumes "refs_valid h0 crs"
  shows "take (length h0) (fst (regionalData_h h0 crs)) = h0 \<and>
         (\<forall>e \<in> set (snd (regionalData_h h0 crs)).
            length h0 \<le> e \<and> e < length (fst (regionalData_h h0 crs))) \<and>
         map (\<lambda>e. fst (regionalData_h h0 crs) ! e) (snd (regionalData_h h0 crs))
           = regionalData (Some \<lparr>campaigns = Some (map (regional_view h0) crs)\<rparr>)"
proof -
  obtain h m where hm: "fold region_campaign_h crs (h0, []) = (h, m)"
    by (cases "fold region_campaign_h crs (h0, [])")
  from regional_store_run [OF assms] hm
  have inv: "store_inv h0 (h, m)" and d: "deref_map (h, m) = regionMap_of (map (regional_view h0) crs)"
    by simp_all
  have "map (\<lambda>e. h ! e) (sort_key (\<lambda>e. - rp_revenue (h ! e)) (map snd m))
      = sort_key (\<lambda>r. - rp_revenue r) (map (\<lambda>e. h ! e) (map snd m))"
    by (rule map_sort_key)
  then have "map (\<lambda>e. h ! e) (sort_key (\<lambda>e. - rp_revenue (h ! e)) (map snd m))
      = regionalData (Some \<lparr>campaigns = Some (map (regional_view h0) crs)\<rparr>)"
    by (simp only: map_snd_deref d) (simp add: regionalData_def)
  with inv show ?thesis
    by (simp add: regionalData_h_def hm store_inv_def)
qed

lemma device_step_h_sound:
  assumes "device_inv h0 s" and "a < length h0"
  shows "device_inv h0 (device_step_h (length h0) (Suc (length h0)) c a s) \<and>
         device_abs (length h0) (device_step_h (length h0) (Suc (length h0)) c a s)
           = device_step c (h0 ! a) (device_abs (length h0) s)"
proof -
  obtain h rows where s: "s = (h, rows)" by (cases s)
  from assms s have l: "length h = length h0 + 2" and t: "take (length h0) h = h0"
    by (simp_all add: device_inv_def)
  from t have "h0 ! a = take (length h0) h ! a" by simp
  with assms(2) have r: "h ! a = h0 ! a" by simp
  from assms(2) have n: "a \<noteq> length h0" "a \<noteq> Suc (length h0)" by simp_all
  show ?thesis using l t n
    by (simp add: device_step_h_def device_step_def device_abs_def device_inv_def s r Let_def)
qed

lemma device_fold_h_sound:
  assumes "device_inv h0 s" and "\<forall>a \<in> set as. a < length h0"
  shows "device_inv h0 (fold (device_step_h (length h0) (Suc (length h0)) c) as s) \<and>
         device_abs (length h0) (fold (device_step_h (length h0) (Suc (length h0)) c) as s)
           = fold (device_step c) (map (\<lambda>a. h0 ! a) as) (device_abs (length h0) s)"
  using assms
proof (induction as arbitrary: s)
  case Nil
  then show ?case by simp
next
  case (Cons a as)
  from Cons.prems have a: "a < length h0" and as: "\<forall>a \<in> set as. a < length h0" by simp_all
  from device_step_h_sound [OF Cons.prems(1) a, of c]
  have 1: "device_inv h0 (device_step_h (length h0) (Suc (length h0)) c a s)"
    and 2: "device_abs (length h0) (device_step_h (length h0) (Suc (length h0)) c a s)
           = device_step c (h0 ! a) (device_abs (length h0) s)"
    by simp_all
  from Cons.IH [OF 1 as] 2 show ?case by simp
qed

lemma device_step_name:
  "name c' = name c \<Longrightarrow> device_step c' = device_step c"
  by (intro ext) (simp add: device_step_def device_row_def Let_def)

lemma device_campaigns_h_sound:
  assumes "device_inv h0 s" and "refs_valid h0 crs"
  shows "device_inv h0 (fold (device_campaign_h (length h0) (Suc (length h0))) crs s) \<and>
         device_abs (length h0) (fold (device_campaign_h (length h0) (Suc (length h0))) crs s)
           = fold device_campaign (map (device_view h0) crs) (device_abs (length h0) s)"
  using assms
proof (induction crs arbitrary: s)
  case Nil
  then show ?case by simp
next
  case (Cons cr crs)
  from Cons.prems(2) have v: "refs_valid h0 crs" by (simp add: refs_valid_def)
  have n: "device_step (device_view h0 cr) = device_step (fst cr)"
    by (rule device_step_name) (simp add: device_view_def)
  show ?case
  proof (cases "snd cr")
    case None
    then have "device_campaign_h (length h0) (Suc (length h0)) cr s = s"
      and "device_campaign (device_view h0 cr) (device_abs (length h0) s) = device_abs (length h0) s"
      by (simp_all add: device_campaign_h_def device_campaign_def device_view_def)
    with Cons.IH [OF Cons.prems(1) v] show ?thesis by simp
  next
    case (Some as)
    with Cons.prems(2) have as: "\<forall>a \<in> set as. a < length h0" by (simp add: refs_valid_def)
    let ?s1 = "fold (device_step_h (length h0) (Suc (length h0)) (fst cr)) as s"
    from device_fold_h_sound [OF Cons.prems(1) as, of "fst cr"]
    have 1: "device_inv h0 ?s1"
      and 2: "device_abs (length h0) ?s1
          = fold (device_step (fst cr)) (map (\<lambda>a. h0 ! a) as) (device_abs (length h0) s)"
      by simp_all
    have 3: "device_campaign_h (length h0) (Suc (length h0)) cr s = ?s1"
      by (simp add: device_campaign_h_def Some)
    have 4: "device_campaign (device_view h0 cr) (device_abs (length h0) s)
          = fold (device_step (fst cr)) (map (\<lambda>a. h0 ! a) as) (device_abs (length h0) s)"
    proof -
      have "device_performance (device_view h0 cr) = Some (map (\<lambda>a. h0 ! a) as)"
        by (simp add: device_view_def Some)
      then show ?thesis by (simp add: device_campaign_def n)
    qed
    from Cons.IH [OF 1 v] 2 3 4 show ?thesis by simp
  qed
qed

lemma deviceData_h_frame:
  assumes "refs_valid h0 crs"
  shows "take (length h0) (fst (deviceData_h h0 crs)) = h0 \<and>
         fst (snd (deviceData_h h0 crs)) = length h0 \<and>
         fst (snd (snd (deviceData_h h0 crs))) = Suc (length h0) \<and>
         \<lparr>mobileData = fst (deviceData_h h0 crs) ! length h0,
          desktopData = fst (deviceData_h h0 crs) ! Suc (length h0),
          campaignDeviceBreakdown = snd (snd (snd (deviceData_h h0 crs)))\<rparr>
           = deviceData (Some \<lparr>campaigns = Some (map (device_view h0) crs)\<rparr>)"
proof -
  let ?h1 = "h0 @ [emptyAgg ''Mobile'', emptyAgg ''Desktop'']"
  obtain h rows where hr:
    "fold (device_campaign_h (length h0) (Suc (length h0))) crs (?h1, []) = (h, rows)"
    by (cases "fold (device_campaign_h (length h0) (Suc (length h0))) crs (?h1, [])")
  have i: "device_inv h0 (?h1, [])" by (simp add: device_inv_def)
  have a0: "device_abs (length h0) (?h1, []) = emptyDeviceData"
    by (simp add: device_abs_def emptyDeviceData_def nth_append)
  from device_campaigns_h_sound [OF i assms] hr a0
  have inv: "device_inv h0 (h, rows)"
    and abs: "device_abs (length h0) (h, rows)
        = fold device_campaign (map (device_view h0) crs) emptyDeviceData"
    by simp_all
  from inv have l: "length h = length h0 + 2" and t: "take (length h0) h = h0"
    by (simp_all add: device_inv_def)
  let ?fin = "device_finish \<lparr>mobileData = h ! length h0, desktopData = h ! Suc (length h0),
      campaignDeviceBreakdown = rows\<rparr>"
  have d: "deviceData_h h0 crs
      = (h[length h0 := mobileData ?fin, Suc (length h0) := desktopData ?fin],
         length h0, Suc (length h0), rows)"
    by (simp add: deviceData_h_def Let_def hr)
  have f: "?fin = deviceData (Some \<lparr>campaigns = Some (map (device_view h0) crs)\<rparr>)"
    using abs by (simp add: deviceData_def device_abs_def)
  have c: "campaignDeviceBreakdown ?fin = rows" by (simp add: device_finish_def Let_def)
  have "\<lparr>mobileData = mobileData ?fin, desktopData = desktopData ?fin,
        campaignDeviceBreakdown = rows\<rparr> = ?fin"
    using c by (cases ?fin) simp
  with l t show ?thesis by (simp add: d f [symmetric])
qed

lemma demo_slices_h_pure:
  "demo_slices_h c as (h, st) = map_option (Pair h) (demo_slices c (map (\<lambda>a. h ! a) as) st)"
  by (induction as arbitrary: st) (simp_all split: option.splits)

lemma demo_step_scalars:
  assumes "name c' = name c" and "spend c' = spend c" and "revenue c' = revenue c"
  shows "demo_step c' = demo_step c"
proof -
  have g: "demo_gender c' = demo_gender c"
    using assms by (rule demo_gender_campaign_irrelevant)
  have s: "demoSpend c' = demoSpend c"
    by (intro ext) (simp add: demoSpend_def assms)
  have r: "demoRevenue c' = demoRevenue c"
    by (intro ext) (simp add: demoRevenue_def assms)
  have a: "demo_age c' = demo_age c"
    by (intro ext) (unfold demo_age_def s r, rule refl)
  show ?thesis by (intro ext) (simp add: demo_step_def g a)
qed

lemma demo_slices_scalars:
  assumes "name c' = name c" and "spend c' = spend c" and "revenue c' = revenue c"
  shows "demo_slices c' ds st = demo_slices c ds st"
  by (induction ds arbitrary: st) (simp_all add: demo_step_scalars [OF assms] split: option.splits)

lemma demo_campaigns_h_pure:
  "demo_campaigns_h crs (h, st)
     = map_option (Pair h) (demo_campaigns (map (demographic_view h) crs) st)"
proof (induction crs arbitrary: st)
  case Nil
  show ?case by simp
next
  case (Cons cr crs)
  have sc: "demo_slices (demographic_view h cr) = demo_slices (fst cr)"
    by (intro ext, rule demo_slices_scalars) (simp_all add: demographic_view_def)
  show ?case
  proof (cases "snd cr")
    case None
    then have "demographic_breakdown (demographic_view h cr) = None"
      by (simp add: demographic_view_def)
    with None show ?thesis by (simp add: Cons.IH)
  next
    case (Some as)
    then have "demographic_breakdown (demographic_view h cr) = Some (map (\<lambda>a. h ! a) as)"
      by (simp add: demographic_view_def)
    with Some show ?thesis
      by (simp add: Cons.IH demo_slices_h_pure sc split: option.splits)
  qed
qed

lemma demographicData_h_frame:
  "\<exists>y. demographicData_h h0 crs = Some (h0, y) \<and>
       demographicData (Some \<lparr>campaigns = Some (map (demographic_view h0) crs)\<rparr>) = Some y"
proof -
  from demographicData_total [of "Some \<lparr>campaigns = Some (map (demographic_view h0) crs)\<rparr>"]
  obtain y where y: "demographicData (Some \<lparr>campaigns = Some (map (demographic_view h0) crs)\<rparr>) = Some y"
    by blast
  then have "demo_campaigns (map (demographic_view h0) crs) emptyDemographicData = Some y"
    by (simp add: demographicData_def)
  then have "demographicData_h h0 crs = Some (h0, y)"
    by (simp add: demographicData_h_def demo_campaigns_h_pure)
  with y show ?thesis by blast
qed

text \<open>
  Claim C9.  Running any of the four derivations leaves the input as it was.  On a store
  that holds the breakdown records as objects, with the input occupying the addresses
  below \<open>length h0\<close>, the weekly and the regional rollup allocate the copy of a first
  occurrence at a fresh address and every later merge writes to such a copy: all
  addresses held by the accumulator lie above the input, and the input part of the final
  store is the input.  The device rollup writes to the two bucket objects it creates
  itself, and the demographic rollup writes to no object at all.  In each case the
  objects the result points to hold exactly what the value-level function computes from
  the unchanged input.  The scalar fields of a campaign and the arrays of references are
  never assigned to in the source, so they are values of the model.
\<close>

theorem aggregations_leave_input_unchanged:
  "(refs_valid wh wcs \<longrightarrow>
      take (length wh) (fst (weeklyData_h getTime wh wcs)) = wh \<and>
      (\<forall>e \<in> set (snd (weeklyData_h getTime wh wcs)).
         length wh \<le> e \<and> e < length (fst (weeklyData_h getTime wh wcs))) \<and>
      map (\<lambda>e. fst (weeklyData_h getTime wh wcs) ! e) (snd (weeklyData_h getTime wh wcs))
        = weeklyData getTime (Some \<lparr>campaigns = Some (map (weekly_view wh) wcs)\<rparr>)) \<and>
   (refs_valid rh rcs \<longrightarrow>
      take (length rh) (fst (regionalData_h rh rcs)) = rh \<and>
      (\<forall>e \<in> set (snd (regionalData_h rh rcs)).
         length rh \<le> e \<and> e < length (fst (regionalData_h rh rcs))) \<and>
      map (\<lambda>e. fst (regionalData_h rh rcs) ! e) (snd (regionalData_h rh rcs))
        = regionalData (Some \<lparr>campaigns = Some (map (regional_view rh) rcs)\<rparr>)) \<and>
   (refs_valid dh dcs \<longrightarrow>
      take (length dh) (fst (deviceData_h dh dcs)) = dh \<and>
      fst (snd (deviceData_h dh dcs)) = length dh \<and>
      fst (snd (snd (deviceData_h dh dcs))) = Suc (length dh) \<and>
      \<lparr>mobileData = fst (deviceData_h dh dcs) ! length dh,
       desktopData = fst (deviceData_h dh dcs) ! Suc (length dh),
       campaignDeviceBreakdown = snd (snd (snd (deviceData_h dh dcs)))\<rparr>
        = deviceData (Some \<lparr>campaigns = Some (map (device_view dh) dcs)\<rparr>)) \<and>
   (\<exists>y. demographicData_h gh gcs = Some (gh, y) \<and>
        demographicData (Some \<lparr>campaigns = Some (map (demographic_view gh) gcs)\<rparr>) = Some y)"
  using weeklyData_h_frame [of wh wcs getTime] regionalData_h_frame [of rh rcs]
    deviceData_h_frame [of dh dcs] demographicData_h_frame [of gh gcs]
  by blast

lemma weekly_store_example:
  "weeklyData_h ex_getTime ex_wh ex_wcs =
     (ex_wh @ [ex_week ''2024-01-08'' ''2024-01-14'' 5,
               (ex_week ''2024-01-01'' ''2024-01-07'' 10)
                  \<lparr>wp_impressions := 3000, wp_clicks := 30, wp_conversions := 2,
                    wp_spend := 20, wp_revenue := 80\<rparr>],
      [4, 3])"
  by (simp add: weeklyData_h_def week_campaign_h_def week_step_h_def week_merge_def
      ex_wh_def ex_wcs_def ex_week_def ex_getTime_def Let_def)

theorem aggregations_leave_input_unchanged_witness:
  "refs_valid ex_wh ex_wcs \<and> refs_valid ex_rh ex_rcs \<and> refs_valid ex_dh ex_dcs \<and>
   take 3 (fst (weeklyData_h ex_getTime ex_wh ex_wcs)) = ex_wh \<and>
   snd (weeklyData_h ex_getTime ex_wh ex_wcs) = [4, 3] \<and>
   wp_clicks (fst (weeklyData_h ex_getTime ex_wh ex_wcs) ! 4) = 30 \<and>
   wp_clicks (fst (weeklyData_h ex_getTime ex_wh ex_wcs) ! 1) = 10 \<and>
   take 2 (fst (regionalData_h ex_rh ex_rcs)) = ex_rh \<and>
   take 3 (fst (deviceData_h ex_dh ex_dcs)) = ex_dh \<and>
   fst (snd (deviceData_h ex_dh ex_dcs)) = 3"
proof -
  have v: "refs_valid ex_wh ex_wcs" "refs_valid ex_rh ex_rcs" "refs_valid ex_dh ex_dcs"
    by (simp_all add: refs_valid_def ex_wh_def ex_wcs_def ex_rh_def ex_rcs_def ex_dh_def ex_dcs_def)
  have l: "length ex_wh = 3" "length ex_rh = 2" "length ex_dh = 3"
    by (simp_all add: ex_wh_def ex_rh_def ex_dh_def)
  note t = aggregations_leave_input_unchanged
    [where wh = ex_wh and wcs = ex_wcs and getTime = ex_getTime and rh = ex_rh and rcs = ex_rcs
       and dh = ex_dh and dcs = ex_dcs and gh = "[]" and gcs = "[]"]
  from t v(1) have "take (length ex_wh) (fst (weeklyData_h ex_getTime ex_wh ex_wcs)) = ex_wh"
    by blast
  then have w: "take 3 (fst (weeklyData_h ex_getTime ex_wh ex_wcs)) = ex_wh"
    by (simp only: l)
  from t v(2) have "take (length ex_rh) (fst (regionalData_h ex_rh ex_rcs)) = ex_rh" by blast
  then have r: "take 2 (fst (regionalData_h ex_rh ex_rcs)) = ex_rh" by (simp only: l)
  from t v(3) have "take (length ex_dh) (fst (deviceData_h ex_dh ex_dcs)) = ex_dh \<and>
      fst (snd (deviceData_h ex_dh ex_dcs)) = length ex_dh" by blast
  then have d: "take 3 (fst (deviceData_h ex_dh ex_dcs)) = ex_dh \<and>
      fst (snd (deviceData_h ex_dh ex_dcs)) = 3" by (simp only: l)
  have e: "snd (weeklyData_h ex_getTime ex_wh ex_wcs) = [4, 3] \<and>
      wp_clicks (fst (weeklyData_h ex_getTime ex_wh ex_wcs) ! 4) = 30 \<and>
      wp_clicks (fst (weeklyData_h ex_getTime ex_wh ex_wcs) ! 1) = 10"
    unfolding weekly_store_example by (simp add: ex_wh_def ex_week_def)
  from v w r d e show ?thesis by blast
qed

end
